theory Spec2Isabelle
  imports Main "HOL-Library.Sublist"
begin

section \<open>Python values used by \<open>file_structure.py\<close>\<close>

text \<open>
  Exceptions are values. Every \<open>assert\<close>, failed dictionary lookup, failed
  \<open>str.rindex\<close>, out-of-range index, and \<open>exit(1)\<close> of the source is a branch that
  returns one of them. \<open>RecursionError\<close> is what the interpreter raises when the nested
  \<open>FileStructure(...)\<close> constructor calls exceed its recursion limit.
\<close>

datatype error =
    AssertionError
  | KeyError
  | ValueError
  | IndexError
  | TypeError
  | EOFError
  | SystemExit
  | RecursionError
  | FileNotFoundError
  | FileExistsError
  | NotADirectoryError
  | IsADirectoryError

subsection \<open>Strings\<close>

text \<open>
  A Python \<open>str\<close> is a \<open>string\<close>. The text handled here is ASCII: the whitespace that
  \<open>str.strip\<close> and \<open>str.lstrip\<close> remove is the ASCII part of \<open>str.isspace\<close>.
\<close>

definition isspace :: "char \<Rightarrow> bool" where
  "isspace c = (c \<in> set [CHR '' '', CHR 0x09, CHR 0x0A, CHR 0x0B, CHR 0x0C, CHR 0x0D,
                           CHR 0x1C, CHR 0x1D, CHR 0x1E, CHR 0x1F])"

definition lstrip :: "string \<Rightarrow> string" where
  "lstrip s = dropWhile isspace s"

definition rstrip :: "string \<Rightarrow> string" where
  "rstrip s = rev (dropWhile isspace (rev s))"

definition strip :: "string \<Rightarrow> string" where
  "strip s = rstrip (lstrip s)"

definition startswith :: "string \<Rightarrow> string \<Rightarrow> bool" where
  "startswith s p = (take (length p) s = p)"

definition endswith :: "string \<Rightarrow> string \<Rightarrow> bool" where
  "endswith s p = (length p \<le> length s \<and> drop (length s - length p) s = p)"

text \<open>\<open>s.rindex(c)\<close>: the last index of \<open>c\<close>, \<open>ValueError\<close> when there is none.\<close>

definition rindex :: "string \<Rightarrow> char \<Rightarrow> error + nat" where
  "rindex s c = (if c \<in> set s then Inr (length s - 1 - length (takeWhile (\<lambda>x. x \<noteq> c) (rev s)))
                 else Inl ValueError)"

text \<open>\<open>s.replace(a, b)\<close> for single characters.\<close>

definition replace :: "string \<Rightarrow> char \<Rightarrow> char \<Rightarrow> string" where
  "replace s a b = map (\<lambda>x. if x = a then b else x) s"

text \<open>\<open>s.split(c)\<close> with an explicit one-character separator: never an empty list.\<close>

fun split :: "string \<Rightarrow> char \<Rightarrow> string list" where
  "split [] c = [[]]"
| "split (x # xs) c =
     (if x = c then [] # split xs c
      else (case split xs c of [] \<Rightarrow> [[x]] | y # ys \<Rightarrow> (x # y) # ys))"

text \<open>\<open>" " * n\<close>.\<close>

definition spaces :: "int \<Rightarrow> string" where
  "spaces n = replicate (nat n) (CHR '' '')"

text \<open>\<open>len(line) - len(line.lstrip())\<close>.\<close>

definition num_spaces_of :: "string \<Rightarrow> int" where
  "num_spaces_of line = int (length line) - int (length (lstrip line))"

text \<open>\<open>str.lower\<close> on ASCII text.\<close>

definition lower_char :: "char \<Rightarrow> char" where
  "lower_char c =
     (let n = (of_char c :: nat) in if 65 \<le> n \<and> n \<le> 90 then char_of (n + 32) else c)"

definition lower :: "string \<Rightarrow> string" where
  "lower s = map lower_char s"

subsection \<open>Paths\<close>

text \<open>
  A \<open>pathlib.Path\<close> (POSIX flavour) is the list of its \<open>parts\<close>; an absolute path has
  the root \<open>/\<close> as its first part. Two paths are equal when their parts are. Parsing a
  string drops empty and \<open>.\<close> components, as \<open>pathlib\<close> does; \<open>..\<close> is kept.
\<close>

type_synonym path = "string list"

definition Path :: "string \<Rightarrow> path" where
  "Path s = (if startswith s ''/'' then [''/''] else [])
            @ filter (\<lambda>p. p \<noteq> [] \<and> p \<noteq> ''.'') (split s (CHR ''/''))"

text \<open>\<open>p / s\<close>: an absolute right operand replaces the left one.\<close>

definition joinpath :: "path \<Rightarrow> string \<Rightarrow> path" where
  "joinpath p s = (if startswith s ''/'' then Path s else p @ Path s)"

fun join :: "string \<Rightarrow> string list \<Rightarrow> string" where
  "join sep [] = []"
| "join sep [x] = x"
| "join sep (x # y # ys) = x @ sep @ join sep (y # ys)"

text \<open>\<open>str(p)\<close>; the path with no parts prints as \<open>.\<close>.\<close>

definition str_path :: "path \<Rightarrow> string" where
  "str_path p =
     (case p of
        [] \<Rightarrow> ''.''
      | x # xs \<Rightarrow> if x = ''/'' then ''/'' @ join ''/'' xs else join ''/'' p)"

text \<open>
  \<open>os.path.splitext(p)[1]\<close>: the extension starts at the last dot of the last component,
  unless only dots come before it in that component.
\<close>

definition basename :: "string \<Rightarrow> string" where
  "basename p = rev (takeWhile (\<lambda>c. c \<noteq> CHR ''/'') (rev p))"

definition splitext_ext :: "string \<Rightarrow> string" where
  "splitext_ext p =
     (let b = basename p;
          ext = CHR ''.'' # rev (takeWhile (\<lambda>c. c \<noteq> CHR ''.'') (rev b));
          stem = take (length b - length ext) b
      in if CHR ''.'' \<in> set b \<and> (\<exists>c \<in> set stem. c \<noteq> CHR ''.'') then ext else [])"

definition is_seemingly_dir :: "string \<Rightarrow> bool" where
  "is_seemingly_dir p = (splitext_ext p = [])"

section \<open>The file system and the terminal\<close>

text \<open>
  The disk is the finite table of the entries that exist, keyed by path; a regular file
  carries its content. A relative path is looked up as it is written (the current
  directory is the entry of the empty path); symbolic links and the resolution of \<open>..\<close>
  are outside the model. \<open>os.listdir\<close> and the iteration over a Python \<open>set\<close> have no
  specified order: the model takes the order of the table.
\<close>

datatype entry = Directory | RegularFile string

type_synonym disk = "(path \<times> entry) list"

definition path_exists :: "disk \<Rightarrow> path \<Rightarrow> bool" where
  "path_exists d p = (map_of d p \<noteq> None)"

definition is_dir :: "disk \<Rightarrow> path \<Rightarrow> bool" where
  "is_dir d p = (map_of d p = Some Directory)"

definition parent :: "path \<Rightarrow> path" where
  "parent p = (if p = [''/''] then p else butlast p)"

definition is_child :: "path \<Rightarrow> path \<Rightarrow> bool" where
  "is_child p q = (parent q = p \<and> q \<noteq> p)"

definition listdir :: "disk \<Rightarrow> path \<Rightarrow> error + string list" where
  "listdir d p =
     (case map_of d p of
        None \<Rightarrow> Inl FileNotFoundError
      | Some (RegularFile c) \<Rightarrow> Inl NotADirectoryError
      | Some Directory \<Rightarrow> Inr (remdups (map last (filter (is_child p) (map fst d)))))"

definition rmdir :: "disk \<Rightarrow> path \<Rightarrow> disk" where
  "rmdir d p = filter (\<lambda>(q, e). q \<noteq> p) d"

definition rmtree :: "disk \<Rightarrow> path \<Rightarrow> disk" where
  "rmtree d p = filter (\<lambda>(q, e). \<not> prefix p q) d"

definition os_remove :: "disk \<Rightarrow> path \<Rightarrow> error + disk" where
  "os_remove d p =
     (case map_of d p of
        None \<Rightarrow> Inl FileNotFoundError
      | Some Directory \<Rightarrow> Inl IsADirectoryError
      | Some (RegularFile c) \<Rightarrow> Inr (filter (\<lambda>(q, e). q \<noteq> p) d))"

definition mkdir :: "disk \<Rightarrow> path \<Rightarrow> error + disk" where
  "mkdir d p =
     (if path_exists d p then Inl FileExistsError
      else (case map_of d (parent p) of
              None \<Rightarrow> Inl FileNotFoundError
            | Some (RegularFile c) \<Rightarrow> Inl NotADirectoryError
            | Some Directory \<Rightarrow> Inr (d @ [(p, Directory)])))"

text \<open>
  \<open>os.makedirs(p)\<close>: when the parent is missing it is made first (with its own missing
  parents), a \<open>FileExistsError\<close> of that step being ignored; then \<open>p\<close> itself is made.
\<close>

function makedirs :: "disk \<Rightarrow> path \<Rightarrow> error + disk" where
  "makedirs d p =
     (if butlast p \<noteq> [] \<and> \<not> path_exists d (butlast p) then
        (case makedirs d (butlast p) of
           Inr d' \<Rightarrow> mkdir d' p
         | Inl e \<Rightarrow> if e = FileExistsError then mkdir d p else Inl e)
      else mkdir d p)"
  by pat_completeness auto
termination
proof (relation "measure (\<lambda>(d, p). length p)")
  fix d :: disk and p :: path
  assume "butlast p \<noteq> [] \<and> \<not> path_exists d (butlast p)"
  then have "p \<noteq> []" by auto
  then show "((d, butlast p), (d, p)) \<in> measure (\<lambda>(d, p). length p)" by simp
qed simp

declare makedirs.simps [simp del]

text \<open>\<open>open(p, "w").close()\<close>: an empty regular file, truncating one that is there.\<close>

definition open_w :: "disk \<Rightarrow> path \<Rightarrow> error + disk" where
  "open_w d p =
     (case map_of d p of
        Some Directory \<Rightarrow> Inl IsADirectoryError
      | Some (RegularFile c) \<Rightarrow> Inr (map (\<lambda>(q, e). if q = p then (q, RegularFile []) else (q, e)) d)
      | None \<Rightarrow>
          (case map_of d (parent p) of
             None \<Rightarrow> Inl FileNotFoundError
           | Some (RegularFile c) \<Rightarrow> Inl NotADirectoryError
           | Some Directory \<Rightarrow> Inr (d @ [(p, RegularFile [])])))"

section \<open>Commands\<close>

datatype FileCommand =
    PRESENT
  | ABSENT
  | PRESENT_BUT_REMOVE
  | PRESENT_BUT_RECREATE
  | ABSENT_BUT_CREATE
  | CREATE
  | CREATE_IF_ABSENT

datatype FileStructureCommand = THAT_IS_ALL | REMOVE_EVERYTHING_ELSE

fun FileCommand_value :: "FileCommand \<Rightarrow> string" where
  "FileCommand_value PRESENT = ''<0>''"
| "FileCommand_value ABSENT = ''<1>''"
| "FileCommand_value PRESENT_BUT_REMOVE = ''<2>''"
| "FileCommand_value PRESENT_BUT_RECREATE = ''<3>''"
| "FileCommand_value ABSENT_BUT_CREATE = ''<4>''"
| "FileCommand_value CREATE = ''<5>''"
| "FileCommand_value CREATE_IF_ABSENT = ''<6>''"

fun FileStructureCommand_value :: "FileStructureCommand \<Rightarrow> string" where
  "FileStructureCommand_value THAT_IS_ALL = ''<<0>>''"
| "FileStructureCommand_value REMOVE_EVERYTHING_ELSE = ''<<1>>''"

definition FileCommand_from_str :: "string \<Rightarrow> error + FileCommand" where
  "FileCommand_from_str s =
     (case map_of (map (\<lambda>c. (FileCommand_value c, c))
             [PRESENT, ABSENT, PRESENT_BUT_REMOVE, PRESENT_BUT_RECREATE, ABSENT_BUT_CREATE,
              CREATE, CREATE_IF_ABSENT]) s of
        None \<Rightarrow> Inl KeyError
      | Some c \<Rightarrow> Inr c)"

definition FileStructureCommand_from_str :: "string \<Rightarrow> error + FileStructureCommand" where
  "FileStructureCommand_from_str s =
     (case map_of (map (\<lambda>c. (FileStructureCommand_value c, c))
             [THAT_IS_ALL, REMOVE_EVERYTHING_ELSE]) s of
        None \<Rightarrow> Inl KeyError
      | Some c \<Rightarrow> Inr c)"

text \<open>
  A call of \<open>FileStructureCommand.run\<close> or \<open>FileCommand.run\<close> made by \<open>FileStructure.do\<close>.
  The world is the disk, the lines the operator will type at the confirmation prompt, and
  the calls made so far with what each raised. The list of calls is not a variable of the
  program: it records the order of execution, so that claims about order can be stated.
\<close>

datatype call =
    RunFileStructureCommand FileStructureCommand path
  | RunFileCommand FileCommand path

record world =
  disk :: disk
  stdin :: "string list"
  trace :: "(call \<times> error option) list"

type_synonym effect = "world \<Rightarrow> error option \<times> world"

definition on_disk :: "(disk \<Rightarrow> error + disk) \<Rightarrow> effect" where
  "on_disk f w = (case f (disk w) of Inl e \<Rightarrow> (Some e, w) | Inr d \<Rightarrow> (None, w\<lparr>disk := d\<rparr>))"

text \<open>Sequencing: an exception of the first statement skips the second.\<close>

definition and_then :: "effect \<Rightarrow> effect \<Rightarrow> effect" where
  "and_then f g w = (case f w of (Some e, w') \<Rightarrow> (Some e, w') | (None, w') \<Rightarrow> g w')"

definition remove_path :: "path \<Rightarrow> bool \<Rightarrow> effect" where
  "remove_path p prompt w =
     (if is_dir (disk w) p then
        (case listdir (disk w) p of
           Inl e \<Rightarrow> (Some e, w)
         | Inr names \<Rightarrow>
             if length names = 0 then (None, w\<lparr>disk := rmdir (disk w) p\<rparr>)
             else if prompt then
               (case stdin w of
                  [] \<Rightarrow> (Some EOFError, w)
                | answer # rest \<Rightarrow>
                    (let choice = lower (strip answer); w' = w\<lparr>stdin := rest\<rparr>
                     in if choice = [] \<or> choice = ''y''
                        then (None, w'\<lparr>disk := rmtree (disk w') p\<rparr>)
                        else (Some SystemExit, w')))
             else (None, w))
      else on_disk (\<lambda>d. os_remove d p) w)"

definition absent_but_create :: "path \<Rightarrow> effect" where
  "absent_but_create p w =
     (if path_exists (disk w) p then (Some AssertionError, w)
      else if is_seemingly_dir (str_path p) then on_disk (\<lambda>d. makedirs d p) w
      else on_disk (\<lambda>d. open_w d p) w)"

definition present_but_remove :: "path \<Rightarrow> bool \<Rightarrow> effect" where
  "present_but_remove p prompt w =
     (if \<not> path_exists (disk w) p then (Some AssertionError, w) else remove_path p prompt w)"

fun FileCommand_run :: "FileCommand \<Rightarrow> path \<Rightarrow> bool \<Rightarrow> effect" where
  "FileCommand_run PRESENT p prompt w =
     (if path_exists (disk w) p then (None, w) else (Some AssertionError, w))"
| "FileCommand_run ABSENT p prompt w =
     (if \<not> path_exists (disk w) p then (None, w) else (Some AssertionError, w))"
| "FileCommand_run PRESENT_BUT_REMOVE p prompt w = present_but_remove p prompt w"
| "FileCommand_run PRESENT_BUT_RECREATE p prompt w =
     and_then (present_but_remove p prompt) (absent_but_create p) w"
| "FileCommand_run ABSENT_BUT_CREATE p prompt w = absent_but_create p w"
| "FileCommand_run CREATE p prompt w =
     (if path_exists (disk w) p
      then and_then (present_but_remove p prompt) (absent_but_create p) w
      else absent_but_create p w)"
| "FileCommand_run CREATE_IF_ABSENT p prompt w =
     (if \<not> path_exists (disk w) p then absent_but_create p w else (None, w))"

text \<open>The loop \<open>for current_path in everything_else: _remove(current_path, prompt)\<close>.\<close>

fun remove_each :: "path list \<Rightarrow> bool \<Rightarrow> effect" where
  "remove_each [] prompt w = (None, w)"
| "remove_each (p # ps) prompt w = and_then (remove_path p prompt) (remove_each ps prompt) w"

definition FileStructureCommand_run ::
  "FileStructureCommand \<Rightarrow> path \<Rightarrow> path list \<Rightarrow> bool \<Rightarrow> effect" where
  "FileStructureCommand_run c p paths prompt w =
     (if \<not> path_exists (disk w) p then (None, w)
      else (case listdir (disk w) p of
              Inl e \<Rightarrow> (Some e, w)
            | Inr names \<Rightarrow>
                (let all_files = remdups (map (joinpath p) names);
                     everything_else = filter (\<lambda>q. q \<notin> set paths) all_files
                 in (case c of
                       THAT_IS_ALL \<Rightarrow>
                         if length everything_else = 0 then (None, w) else (Some AssertionError, w)
                     | REMOVE_EVERYTHING_ELSE \<Rightarrow> remove_each everything_else prompt w))))"

section \<open>The structure\<close>

text \<open>
  A \<open>FileStructure\<close> object with its fields. A child is a \<open>Path\<close> (an ordinary file) or a
  nested \<open>FileStructure\<close> (a directory). \<open>dict_dir\<close> holds references to the objects of
  \<open>list_dir\<close>: a reference is the position in \<open>list_dir\<close>, and the newest binding of a name
  comes first, so that a lookup reads the last write.
\<close>

datatype FileStructure =
  FileStructure
    (prompt: bool)
    (main_dir: path)
    (main_dir_file_command: "FileCommand option")
    (main_dir_file_structure_command: "FileStructureCommand option")
    (list_dir: "path_or_file_structure list")
    (list_dir_file_commands: "FileCommand option list")
    (dict_dir: "(string \<times> nat) list")
    (commands_run: bool)
and path_or_file_structure =
    APath path
  | AFileStructure FileStructure

fun as_path :: "path_or_file_structure \<Rightarrow> path" where
  "as_path (APath p) = p"
| "as_path (AFileStructure f) = main_dir f"

definition children :: "FileStructure \<Rightarrow> path_or_file_structure list" where
  "children f = list_dir f"

subsection \<open>Running the commands\<close>

definition recorded :: "call \<Rightarrow> effect \<Rightarrow> effect" where
  "recorded c f w = (case f w of (r, w') \<Rightarrow> (r, w'\<lparr>trace := trace w' @ [(c, r)]\<rparr>))"

text \<open>The statement \<open>if x is not None: f(x)\<close>.\<close>

definition if_not_None :: "'a option \<Rightarrow> ('a \<Rightarrow> effect) \<Rightarrow> effect" where
  "if_not_None x f w = (case x of None \<Rightarrow> (None, w) | Some c \<Rightarrow> f c w)"

text \<open>
  \<open>FileStructure.do\<close>. The object is mutated (\<open>commands_run\<close>, here and in the nested
  structures), so the structure is returned with the world. \<open>do_children\<close> is the loop over
  \<open>zip(self.list_dir, self.list_dir_file_commands)\<close>; it returns \<open>list_dir\<close> as the loop
  leaves it.
\<close>

fun FileStructure_do :: "FileStructure \<Rightarrow> world \<Rightarrow> error option \<times> FileStructure \<times> world"
and do_children ::
  "bool \<Rightarrow> path_or_file_structure list \<Rightarrow> FileCommand option list \<Rightarrow> world
     \<Rightarrow> error option \<times> path_or_file_structure list \<times> world" where
  "FileStructure_do (FileStructure pr md fc sc ld lc dd cr) w =
     (if \<not> cr then
        (case if_not_None sc
                (\<lambda>c. recorded (RunFileStructureCommand c md)
                       (FileStructureCommand_run c md (map as_path ld) pr)) w of
           (Some e, w1) \<Rightarrow> (Some e, FileStructure pr md fc sc ld lc dd cr, w1)
         | (None, w1) \<Rightarrow>
             (case if_not_None fc
                     (\<lambda>c. recorded (RunFileCommand c md) (FileCommand_run c md pr)) w1 of
                (Some e, w2) \<Rightarrow> (Some e, FileStructure pr md fc sc ld lc dd cr, w2)
              | (None, w2) \<Rightarrow>
                  (case do_children pr ld lc w2 of
                     (Some e, ld', w3) \<Rightarrow> (Some e, FileStructure pr md fc sc ld' lc dd cr, w3)
                   | (None, ld', w3) \<Rightarrow> (None, FileStructure pr md fc sc ld' lc dd True, w3))))
      else (None, FileStructure pr md fc sc ld lc dd cr, w))"
| "do_children pr (APath p # cs) (file_command # fcs) w =
     (case if_not_None file_command
             (\<lambda>c. recorded (RunFileCommand c p) (FileCommand_run c p pr)) w of
        (Some e, w1) \<Rightarrow> (Some e, APath p # cs, w1)
      | (None, w1) \<Rightarrow>
          (case do_children pr cs fcs w1 of (r, cs', w2) \<Rightarrow> (r, APath p # cs', w2)))"
| "do_children pr (AFileStructure f # cs) (file_command # fcs) w =
     (if file_command \<noteq> None then (Some AssertionError, AFileStructure f # cs, w)
      else (case FileStructure_do f w of
              (Some e, f', w1) \<Rightarrow> (Some e, AFileStructure f' # cs, w1)
            | (None, f', w1) \<Rightarrow>
                (case do_children pr cs fcs w1 of
                   (r, cs', w2) \<Rightarrow> (r, AFileStructure f' # cs', w2))))"
| "do_children pr [] fcs w = (None, [], w)"
| "do_children pr cs [] w = (None, cs, w)"

subsection \<open>Addressing\<close>

text \<open>
  \<open>FileStructure.__getitem__\<close>, with the subscription \<open>x[filename]\<close> of the loop written
  out: \<open>x\<close> is a \<open>FileStructure\<close> (whose \<open>__getitem__\<close> is called) or a \<open>Path\<close> (which
  cannot be subscripted: \<open>TypeError\<close>). The two \<open>while\<close> loops strip the slashes at both
  ends; \<open>key[0]\<close> raises \<open>IndexError\<close> when nothing but slashes was there.
\<close>

definition strip_slashes :: "string \<Rightarrow> error + string" where
  "strip_slashes key =
     (let k = dropWhile (\<lambda>c. c = CHR ''/'') key
      in if k = [] then Inl IndexError else Inr (rev (dropWhile (\<lambda>c. c = CHR ''/'') (rev k))))"

definition getitem_key :: "FileStructure \<Rightarrow> string \<Rightarrow> error + path_or_file_structure" where
  "getitem_key f key =
     (case map_of (dict_dir f) key of
        None \<Rightarrow> Inl KeyError
      | Some i \<Rightarrow> Inr (APath (as_path (list_dir f ! i))))"

function getitem :: "FileStructure \<Rightarrow> string \<Rightarrow> error + path_or_file_structure" where
  "getitem f key =
     (if key = [] \<or> key = ''/'' then Inr (APath (main_dir f))
      else (case strip_slashes key of
              Inl e \<Rightarrow> Inl e
            | Inr k \<Rightarrow>
                if CHR ''/'' \<in> set k then
                  (case fold (\<lambda>filename acc.
                                (case acc of
                                   Inl e \<Rightarrow> Inl e
                                 | Inr (APath p) \<Rightarrow> Inl TypeError
                                 | Inr (AFileStructure g) \<Rightarrow> getitem g filename))
                             (split k (CHR ''/'')) (Inr (AFileStructure f)) of
                     Inl e \<Rightarrow> Inl e
                   | Inr x \<Rightarrow> Inr (APath (as_path x)))
                else getitem_key f k))"
  by pat_completeness auto

lemma split_no_separator: "x \<in> set (split s c) \<Longrightarrow> c \<notin> set x"
  by (induction s arbitrary: x) (auto split: if_splits list.splits)

lemma strip_slashes_subset: "strip_slashes key = Inr k \<Longrightarrow> set k \<subseteq> set key"
proof -
  assume a: "strip_slashes key = Inr k"
  let ?k = "dropWhile (\<lambda>c. c = CHR ''/'') key"
  from a have "k = rev (dropWhile (\<lambda>c. c = CHR ''/'') (rev ?k))"
    by (auto simp: strip_slashes_def Let_def split: if_splits)
  then have "set k \<subseteq> set (rev ?k)"
    using set_dropWhileD by fastforce
  also have "\<dots> \<subseteq> set key"
    using set_dropWhileD by fastforce
  finally show ?thesis .
qed

termination getitem
proof (relation "measure (\<lambda>(f, key). if CHR ''/'' \<in> set key then 1 else 0)")
  show "wf (measure (\<lambda>(f :: FileStructure, key). if CHR ''/'' \<in> set key then 1 else 0))"
    by simp
next
  fix f :: FileStructure and key x2 :: string and filename :: string
    and acc :: "error + path_or_file_structure" and x2a x2b g
  assume "strip_slashes key = Inr x2" "CHR ''/'' \<in> set x2"
    "filename \<in> set (split x2 (CHR ''/''))"
  then have "CHR ''/'' \<in> set key" "CHR ''/'' \<notin> set filename"
    using strip_slashes_subset split_no_separator by blast+
  then show "((g, filename), (f, key)) \<in> measure (\<lambda>(f, key). if CHR ''/'' \<in> set key then 1 else 0)"
    by simp
qed

declare getitem.simps [simp del]

definition truediv :: "FileStructure \<Rightarrow> string \<Rightarrow> error + path_or_file_structure" where
  "truediv f other = getitem f other"

section \<open>The parser\<close>

subsection \<open>Preprocessing\<close>

text \<open>\<open>str.splitlines\<close> on ASCII text, and \<open>"\<bsol>n".join\<close>.\<close>

definition is_linebreak :: "char \<Rightarrow> bool" where
  "is_linebreak c = (c \<in> set [CHR 0x0A, CHR 0x0D, CHR 0x0B, CHR 0x0C, CHR 0x1C, CHR 0x1D, CHR 0x1E])"

function splitlines :: "string \<Rightarrow> string list" where
  "splitlines s =
     (if s = [] then []
      else (let l = takeWhile (\<lambda>c. \<not> is_linebreak c) s;
                r = dropWhile (\<lambda>c. \<not> is_linebreak c) s
            in if r = [] then [l]
               else l # splitlines (if startswith r [CHR 0x0D, CHR 0x0A] then drop 2 r else drop 1 r)))"
  by pat_completeness auto
termination
proof (relation "measure length")
  fix s :: string and l r :: string
  assume "s \<noteq> []" and r: "r = dropWhile (\<lambda>c. \<not> is_linebreak c) s" and "r \<noteq> []"
  have "length r \<le> length s" unfolding r by (rule length_dropWhile_le)
  with \<open>r \<noteq> []\<close>
  show "((if startswith r [CHR 0x0D, CHR 0x0A] then drop 2 r else drop 1 r, s)) \<in> measure length"
    by (cases r) auto
qed simp

declare splitlines.simps [simp del]

definition remove_comments :: "string list \<Rightarrow> string list" where
  "remove_comments lines =
     map (\<lambda>line. if CHR ''#'' \<in> set line then takeWhile (\<lambda>c. c \<noteq> CHR ''#'') line else line) lines"

text \<open>
  \<open>_remove_empty_lines\<close>: the two \<open>while\<close> loops; \<open>lines[0]\<close> and \<open>lines[-1]\<close> raise
  \<open>IndexError\<close> once nothing is left.
\<close>

fun drop_leading_empty :: "string list \<Rightarrow> error + string list" where
  "drop_leading_empty [] = Inl IndexError"
| "drop_leading_empty (l # ls) = (if strip l = [] then drop_leading_empty ls else Inr (l # ls))"

function drop_trailing_empty :: "string list \<Rightarrow> error + string list" where
  "drop_trailing_empty ls =
     (if ls = [] then Inl IndexError
      else if strip (last ls) = [] then drop_trailing_empty (butlast ls)
      else Inr ls)"
  by pat_completeness auto
termination
  by (relation "measure length") (auto simp: less_Suc_eq_le intro: diff_less)

declare drop_trailing_empty.simps [simp del]

definition remove_empty_lines :: "string list \<Rightarrow> error + string list" where
  "remove_empty_lines lines =
     (case drop_leading_empty lines of Inl e \<Rightarrow> Inl e | Inr ls \<Rightarrow> drop_trailing_empty ls)"

definition remove_trailing_slash_if_exists :: "string \<Rightarrow> string" where
  "remove_trailing_slash_if_exists s = (if endswith s ''/'' then butlast s else s)"

definition remove_enclosing_quotation_marks :: "string \<Rightarrow> string" where
  "remove_enclosing_quotation_marks s =
     (let s1 = (if startswith s [CHR 0x27] \<or> startswith s [CHR 0x22] then tl s else s)
      in if endswith s1 [CHR 0x27] \<or> endswith s1 [CHR 0x22] then butlast s1 else s1)"

subsection \<open>Lines\<close>

definition parse_normal_line :: "string \<Rightarrow> error + (string \<times> FileCommand option)" where
  "parse_normal_line line =
     (if endswith line ''>'' then
        (case rindex line (CHR '' '') of
           Inl e \<Rightarrow> Inl e
         | Inr last_space_index \<Rightarrow>
             (let filename = strip (take last_space_index line);
                  command_str = strip (drop (last_space_index + 1) line)
              in case FileCommand_from_str command_str of
                   Inl e \<Rightarrow> Inl e
                 | Inr file_command \<Rightarrow>
                     Inr (remove_trailing_slash_if_exists filename, Some file_command)))
      else Inr (remove_trailing_slash_if_exists line, None))"

definition parse_file_structure_command_line :: "string \<Rightarrow> error + FileStructureCommand" where
  "parse_file_structure_command_line line =
     (if \<not> startswith line ''<<'' then Inl AssertionError
      else FileStructureCommand_from_str line)"

definition calc_indent_length :: "string list \<Rightarrow> error + int" where
  "calc_indent_length lines =
     (case lines of
        first_line # second_line # rest \<Rightarrow>
          (let indent_length = num_spaces_of second_line - num_spaces_of first_line
           in if indent_length > 0 then Inr indent_length else Inl AssertionError)
      | _ \<Rightarrow> Inl ValueError)"

definition calc_num_leading_spaces :: "string list \<Rightarrow> int" where
  "calc_num_leading_spaces lines = num_spaces_of (hd lines)"

text \<open>
  \<open>calc_num_indents\<close>; the variables of the enclosing function it reads
  (\<open>num_leading_spaces\<close>, \<open>prev_num_indents\<close>) are parameters.
\<close>

definition calc_num_indents :: "int \<Rightarrow> int \<Rightarrow> string \<Rightarrow> int \<Rightarrow> bool \<Rightarrow> error + int" where
  "calc_num_indents num_leading_spaces prev_num_indents line indent_length prev_is_ordinary_file =
     (let num_spaces = num_spaces_of line - num_leading_spaces
      in if \<not> num_spaces > 0 then Inl AssertionError
         else if num_spaces mod indent_length \<noteq> 0 then Inl AssertionError
         else (let num_indents = num_spaces div indent_length
               in if prev_is_ordinary_file \<and> \<not> num_indents \<le> prev_num_indents then Inl AssertionError
                  else if \<not> prev_is_ordinary_file \<and> \<not> num_indents \<le> prev_num_indents + 1
                    then Inl AssertionError
                  else if num_indents = 0 then Inl AssertionError
                  else Inr num_indents))"

text \<open>
  \<open>process_line_block\<close>: the loop that collects the lines under a directory line, entered
  with \<open>line_no\<close> already advanced by one.
\<close>

function block_loop ::
  "string list \<Rightarrow> int \<Rightarrow> int \<Rightarrow> int \<Rightarrow> string list \<Rightarrow> nat \<Rightarrow> string list \<times> nat" where
  "block_loop lines num_indents num_leading_spaces indent_length current_line_block line_no =
     (if line_no < length lines then
        (let current_line = lines ! line_no;
             current_num_spaces = num_spaces_of current_line - num_leading_spaces;
             this_num_indents = current_num_spaces div indent_length
         in if this_num_indents \<le> num_indents then (current_line_block, line_no)
            else block_loop lines num_indents num_leading_spaces indent_length
                   (current_line_block @ [current_line]) (line_no + 1))
      else (current_line_block, line_no))"
  by pat_completeness auto
termination
  by (relation "measure (\<lambda>(lines, ni, nls, il, blk, line_no). length lines - line_no)") auto

declare block_loop.simps [simp del]

definition process_line_block ::
  "string list \<Rightarrow> nat \<Rightarrow> int \<Rightarrow> int \<Rightarrow> int \<Rightarrow> string list \<times> nat" where
  "process_line_block lines line_no num_indents num_leading_spaces indent_length =
     block_loop lines num_indents num_leading_spaces indent_length [] (line_no + 1)"

subsection \<open>Building the structure\<close>

text \<open>
  The statements at the end of each branch of \<open>process_line\<close> that extend \<open>list_dir\<close>,
  \<open>list_dir_file_commands\<close> and \<open>dict_dir\<close>. A new child is registered under its name as
  a reference to its position in \<open>list_dir\<close>.
\<close>

definition register_children ::
  "FileStructure \<Rightarrow> string list \<Rightarrow> path_or_file_structure list \<Rightarrow> FileCommand option list
     \<Rightarrow> FileStructure" where
  "register_children self filenames new_paths_or_file_structures file_commands =
     (case self of
        FileStructure pr md fc sc ld lc dd cr \<Rightarrow>
          FileStructure pr md fc sc
            (ld @ new_paths_or_file_structures)
            (lc @ file_commands)
            (rev (zip filenames (map (\<lambda>i. length ld + i) [0..<length new_paths_or_file_structures])) @ dd)
            cr)"

definition set_file_structure_command :: "FileStructure \<Rightarrow> FileStructureCommand \<Rightarrow> FileStructure" where
  "set_file_structure_command self c =
     (case self of
        FileStructure pr md fc sc ld lc dd cr \<Rightarrow> FileStructure pr md fc (Some c) ld lc dd cr)"

text \<open>The synthetic first line of the text a nested structure is built from.\<close>

definition header_line :: "int \<Rightarrow> int \<Rightarrow> path \<Rightarrow> FileCommand option \<Rightarrow> string" where
  "header_line num_leading_spaces indent_length new_path file_command =
     spaces (num_leading_spaces + indent_length) @ str_path new_path
       @ (case file_command of None \<Rightarrow> [] | Some c \<Rightarrow> '' '' @ FileCommand_value c)"

text \<open>A list comprehension whose body may raise: the first exception ends it.\<close>

fun map_raising :: "('a \<Rightarrow> error + 'b) \<Rightarrow> 'a list \<Rightarrow> error + 'b list" where
  "map_raising f [] = Inr []"
| "map_raising f (x # xs) =
     (case f x of
        Inl e \<Rightarrow> Inl e
      | Inr y \<Rightarrow> (case map_raising f xs of Inl e \<Rightarrow> Inl e | Inr ys \<Rightarrow> Inr (y # ys)))"

text \<open>
  The three branches of \<open>process_line\<close>. \<open>new\<close> is the nested constructor call
  \<open>FileStructure(text, lazy_commands=True, prompt=self.prompt)\<close>. Each returns the next
  \<open>line_no\<close>, \<open>is_ordinary_file\<close>, and the structure as the statements leave it.
\<close>

definition process_command_line ::
  "FileStructure \<Rightarrow> string \<Rightarrow> nat \<Rightarrow> error + (nat \<times> bool \<times> FileStructure)" where
  "process_command_line self line line_no =
     (case parse_file_structure_command_line line of
        Inl e \<Rightarrow> Inl e
      | Inr file_structure_command \<Rightarrow>
          if main_dir_file_structure_command self \<noteq> None then Inl AssertionError
          else Inr (line_no + 1, True, set_file_structure_command self file_structure_command))"

definition process_list_line ::
  "(string \<Rightarrow> error + FileStructure) \<Rightarrow> FileStructure \<Rightarrow> string list \<Rightarrow> string \<Rightarrow> nat \<Rightarrow> int
     \<Rightarrow> int \<Rightarrow> int \<Rightarrow> error + (nat \<times> bool \<times> FileStructure)" where
  "process_list_line new self lines line0 line_no num_indents num_leading_spaces indent_length =
     (let line = replace (replace line0 (CHR ''{'') (CHR ''['')) (CHR ''}'') (CHR '']'')
      in case parse_normal_line line of
           Inl e \<Rightarrow> Inl e
         | Inr (filenames_str, file_command) \<Rightarrow>
             if filenames_str = [] then Inl IndexError
             else if \<not> (hd filenames_str = CHR ''['' \<and> last filenames_str = CHR '']'')
               then Inl AssertionError
             else
               (let filenames =
                      map (\<lambda>filename. remove_trailing_slash_if_exists
                                         (strip (remove_enclosing_quotation_marks (strip filename))))
                        (split (butlast (tl filenames_str)) (CHR '',''));
                    new_paths = map (joinpath (main_dir self)) filenames
                in if \<not> (list_all is_seemingly_dir filenames
                          \<or> list_all (\<lambda>filename. \<not> is_seemingly_dir filename) filenames)
                     then Inl AssertionError
                   else if is_seemingly_dir (hd filenames) then
                     (case process_line_block lines line_no num_indents num_leading_spaces indent_length of
                        (current_line_block, line_no') \<Rightarrow>
                          (case map_raising
                                  (\<lambda>new_path.
                                     new (join [CHR 0x0A]
                                            (header_line num_leading_spaces indent_length new_path file_command
                                               # current_line_block)))
                                  new_paths of
                             Inl e \<Rightarrow> Inl e
                           | Inr new_file_structures \<Rightarrow>
                               Inr (line_no', False,
                                    register_children self filenames
                                      (map AFileStructure new_file_structures)
                                      (replicate (length filenames) None))))
                   else Inr (line_no + 1, True,
                             register_children self filenames (map APath new_paths)
                               (replicate (length filenames) file_command))))"

definition process_name_line ::
  "(string \<Rightarrow> error + FileStructure) \<Rightarrow> FileStructure \<Rightarrow> string list \<Rightarrow> string \<Rightarrow> nat \<Rightarrow> int
     \<Rightarrow> int \<Rightarrow> int \<Rightarrow> error + (nat \<times> bool \<times> FileStructure)" where
  "process_name_line new self lines line line_no num_indents num_leading_spaces indent_length =
     (case parse_normal_line line of
        Inl e \<Rightarrow> Inl e
      | Inr (filename, file_command) \<Rightarrow>
          (let new_path = joinpath (main_dir self) filename
           in if is_seemingly_dir (str_path new_path) then
                (case process_line_block lines line_no num_indents num_leading_spaces indent_length of
                   (current_line_block, line_no') \<Rightarrow>
                     (case new (join [CHR 0x0A]
                                  (header_line num_leading_spaces indent_length new_path file_command
                                     # current_line_block)) of
                        Inl e \<Rightarrow> Inl e
                      | Inr new_file_structure \<Rightarrow>
                          Inr (line_no', False,
                               register_children self [filename]
                                 [AFileStructure new_file_structure] [None])))
              else Inr (line_no + 1, True,
                        register_children self [filename] [APath new_path] [file_command])))"

definition process_line ::
  "(string \<Rightarrow> error + FileStructure) \<Rightarrow> FileStructure \<Rightarrow> string list \<Rightarrow> nat \<Rightarrow> int \<Rightarrow> int \<Rightarrow> int
     \<Rightarrow> error + (nat \<times> bool \<times> FileStructure)" where
  "process_line new self lines line_no num_indents num_leading_spaces indent_length =
     (let line = strip (lines ! line_no)
      in if endswith line ''>>'' then process_command_line self line line_no
         else if (CHR ''['' \<in> set line \<and> CHR '']'' \<in> set line)
                 \<or> (CHR ''{'' \<in> set line \<and> CHR ''}'' \<in> set line)
           then process_list_line new self lines line line_no num_indents num_leading_spaces indent_length
         else process_name_line new self lines line line_no num_indents num_leading_spaces indent_length)"

lemma block_loop_advances:
  "block_loop lines ni nls il blk line_no = (blk', line_no') \<Longrightarrow> line_no \<le> line_no'"
proof (induction lines ni nls il blk line_no rule: block_loop.induct)
  case (1 lines ni nls il blk line_no)
  show ?case
  proof (cases "line_no < length lines \<and> \<not> (num_spaces_of (lines ! line_no) - nls) div il \<le> ni")
    case True
    with "1.prems" have "block_loop lines ni nls il (blk @ [lines ! line_no]) (line_no + 1) = (blk', line_no')"
      by (subst (asm) block_loop.simps) (simp add: Let_def)
    with "1.IH" True have "line_no + 1 \<le> line_no'" by (simp add: Let_def)
    then show ?thesis by simp
  next
    case False
    with "1.prems" show ?thesis
      by (subst (asm) block_loop.simps) (auto simp: Let_def split: if_splits)
  qed
qed

lemma process_line_advances:
  assumes "process_line new self lines line_no ni nls il = Inr (line_no', b, self')"
  shows "line_no < line_no'"
proof -
  have blk: "\<And>blk n. process_line_block lines line_no ni nls il = (blk, n) \<Longrightarrow> line_no < n"
    unfolding process_line_block_def using block_loop_advances by fastforce
  from assms show ?thesis
    unfolding process_line_def process_command_line_def process_list_line_def
      process_name_line_def Let_def
    by (auto split: if_splits sum.splits prod.splits dest: blk)
qed

text \<open>
  The \<open>while\<close> loop of \<open>_process_lines\<close>, with its variables \<open>line_no\<close>,
  \<open>prev_num_indents\<close> and \<open>prev_is_ordinary_file\<close>.
\<close>

function process_lines_loop ::
  "(string \<Rightarrow> error + FileStructure) \<Rightarrow> string list \<Rightarrow> int \<Rightarrow> int \<Rightarrow> FileStructure \<Rightarrow> nat \<Rightarrow> int
     \<Rightarrow> bool \<Rightarrow> error + FileStructure" where
  "process_lines_loop new lines indent_length num_leading_spaces self line_no prev_num_indents
       prev_is_ordinary_file =
     (if line_no < length lines then
        (case calc_num_indents num_leading_spaces prev_num_indents (lines ! line_no) indent_length
                prev_is_ordinary_file of
           Inl e \<Rightarrow> Inl e
         | Inr num_indents \<Rightarrow>
             if num_indents = 1 then
               (case process_line new self lines line_no num_indents num_leading_spaces indent_length of
                  Inl e \<Rightarrow> Inl e
                | Inr (line_no', is_ordinary_file, self') \<Rightarrow>
                    process_lines_loop new lines indent_length num_leading_spaces self' line_no'
                      num_indents is_ordinary_file)
             else Inl AssertionError)
      else Inr self)"
  by pat_completeness auto
termination
proof (relation "measure (\<lambda>(new, lines, il, nls, self, line_no, p, b). length lines - line_no)")
  fix new :: "string \<Rightarrow> error + FileStructure" and lines :: "string list" and il nls :: int
    and self :: FileStructure and line_no :: nat and p :: int and b :: bool and ni :: int
    and r :: "nat \<times> bool \<times> FileStructure" and line_no' :: nat and y :: "bool \<times> FileStructure"
    and b' :: bool and self' :: FileStructure
  assume "line_no < length lines"
    and "process_line new self lines line_no ni nls il = Inr r"
    and "(line_no', y) = r" and "(b', self') = y"
  then have "line_no < line_no'"
    using process_line_advances [of new self lines line_no ni nls il line_no' b' self'] by simp
  with \<open>line_no < length lines\<close>
  show "((new, lines, il, nls, self', line_no', ni, b'), (new, lines, il, nls, self, line_no, p, b))
          \<in> measure (\<lambda>(new, lines, il, nls, self, line_no, p, b). length lines - line_no)"
    by simp
qed simp

declare process_lines_loop.simps [simp del]

definition process_lines :: "(string \<Rightarrow> error + FileStructure) \<Rightarrow> FileStructure \<Rightarrow> string list
    \<Rightarrow> error + FileStructure" where
  "process_lines new self lines =
     (case calc_indent_length lines of
        Inl e \<Rightarrow> Inl e
      | Inr indent_length \<Rightarrow>
          process_lines_loop new lines indent_length (calc_num_leading_spaces lines) self 1 0 False)"

text \<open>
  \<open>FileStructure.__init__\<close> up to the point where the commands are run. \<open>depth\<close> is the
  number of nested constructor calls the interpreter still allows.
\<close>

primrec FileStructure_init :: "nat \<Rightarrow> bool \<Rightarrow> string \<Rightarrow> error + FileStructure" where
  "FileStructure_init 0 = (\<lambda>pr structure. Inl RecursionError)"
| "FileStructure_init (Suc depth) = (\<lambda>pr structure.
     (case remove_empty_lines (remove_comments (splitlines structure)) of
        Inl e \<Rightarrow> Inl e
      | Inr lines \<Rightarrow>
          (let first_line = strip (hd lines)
           in if endswith first_line ''>>'' then Inl AssertionError
              else (case parse_normal_line first_line of
                      Inl e \<Rightarrow> Inl e
                    | Inr (main_dir_path, file_command) \<Rightarrow>
                        if \<not> is_seemingly_dir main_dir_path then Inl AssertionError
                        else (let self = FileStructure pr (Path main_dir_path)
                                           file_command None [] [] [] False
                              in if length lines > 1
                                 then process_lines (FileStructure_init depth pr) self lines
                                 else Inr self)))))"

text \<open>
  The constructor: with \<open>lazy_commands\<close> false the commands are run at once, and an
  exception there leaves no object.
\<close>

definition FileStructure_new ::
  "nat \<Rightarrow> string \<Rightarrow> bool \<Rightarrow> bool \<Rightarrow> world \<Rightarrow> (error + FileStructure) \<times> world" where
  "FileStructure_new depth structure lazy_commands pr w =
     (case FileStructure_init depth pr structure of
        Inl e \<Rightarrow> (Inl e, w)
      | Inr self \<Rightarrow>
          if \<not> lazy_commands then
            (case FileStructure_do self w of
               (Some e, self', w') \<Rightarrow> (Inl e, w')
             | (None, self', w') \<Rightarrow> (Inr self', w'))
          else (Inr self, w))"

section \<open>Example structures\<close>

text \<open>
  The scenario of the specification: root \<open>T\<close> declares the directory \<open>xyz\<close>
  (\<open>CREATE_IF_ABSENT\<close>) that contains the file \<open>x.txt\<close> (\<open>ABSENT_BUT_CREATE\<close>); on the
  disk \<open>T\<close> is an empty directory.
\<close>

definition scenario_text :: string where
  "scenario_text = join [CHR 0x0A] [''T'', ''  xyz <6>'', ''    x.txt <4>'']"

definition scenario_xyz :: FileStructure where
  "scenario_xyz =
     FileStructure False [''T'', ''xyz''] (Some CREATE_IF_ABSENT) None
       [APath [''T'', ''xyz'', ''x.txt'']] [Some ABSENT_BUT_CREATE] [(''x.txt'', 0)] False"

definition scenario_root :: FileStructure where
  "scenario_root =
     FileStructure False [''T''] None None [AFileStructure scenario_xyz] [None] [(''xyz'', 0)] False"

definition scenario_world :: world where
  "scenario_world = \<lparr>disk = [([], Directory), ([''T''], Directory)], stdin = [], trace = []\<rparr>"

section \<open>The order of execution, as the specification words it\<close>

text \<open>
  The calls a run of \<open>do\<close> is to make, in order: the structure command, then the
  directory's own command, then the children in declaration order, a nested directory
  contributing its own plan at its place. A structure that is marked executed
  contributes nothing.
\<close>

fun plan :: "FileStructure \<Rightarrow> call list"
and plan_children :: "path_or_file_structure list \<Rightarrow> FileCommand option list \<Rightarrow> call list" where
  "plan (FileStructure pr md fc sc ld lc dd cr) =
     (if cr then []
      else (case sc of None \<Rightarrow> [] | Some c \<Rightarrow> [RunFileStructureCommand c md])
           @ (case fc of None \<Rightarrow> [] | Some c \<Rightarrow> [RunFileCommand c md])
           @ plan_children ld lc)"
| "plan_children (APath p # cs) (file_command # fcs) =
     (case file_command of None \<Rightarrow> [] | Some c \<Rightarrow> [RunFileCommand c p]) @ plan_children cs fcs"
| "plan_children (AFileStructure f # cs) (file_command # fcs) = plan f @ plan_children cs fcs"
| "plan_children [] fcs = []"
| "plan_children cs [] = []"

text \<open>
  A run that returned \<open>r\<close> after the recorded calls \<open>done\<close> follows the plan \<open>pl\<close>: the
  calls made are an initial segment of the plan; when the run returned normally they
  are the whole plan and each of them returned normally; when the run raised \<open>e\<close>, a
  call was made, the last call made is the one that raised \<open>e\<close>, and every call before
  it returned normally.
\<close>

definition follows_plan :: "error option \<Rightarrow> (call \<times> error option) list \<Rightarrow> call list \<Rightarrow> bool" where
  "follows_plan r done pl =
     (prefix (map fst done) pl
      \<and> (case r of
           None \<Rightarrow> map fst done = pl \<and> list_all (\<lambda>x. snd x = None) done
         | Some e \<Rightarrow> done \<noteq> [] \<and> list_all (\<lambda>x. snd x = None) (butlast done)
                       \<and> snd (last done) = Some e))"

text \<open>
  The calls of the two commands of the structure itself, and the plan of an unmarked
  structure up to and including its child number \<open>i\<close>.
\<close>

definition own_plan :: "FileStructure \<Rightarrow> call list" where
  "own_plan f =
     (case main_dir_file_structure_command f of
        None \<Rightarrow> [] | Some c \<Rightarrow> [RunFileStructureCommand c (main_dir f)])
     @ (case main_dir_file_command f of
          None \<Rightarrow> [] | Some c \<Rightarrow> [RunFileCommand c (main_dir f)])"

definition plan_through :: "FileStructure \<Rightarrow> nat \<Rightarrow> call list" where
  "plan_through f i =
     own_plan f @ plan_children (take (Suc i) (list_dir f)) (take (Suc i) (list_dir_file_commands f))"

text \<open>
  What the assertion in the loop of \<open>do\<close> checks, as the specification words it: every
  nested directory child has no command attached at the parent level, in the structure
  and in every structure nested in it; the list of children and the list of their
  commands have the same length.
\<close>

fun delegated :: "FileStructure \<Rightarrow> bool"
and delegated_children :: "path_or_file_structure list \<Rightarrow> FileCommand option list \<Rightarrow> bool" where
  "delegated (FileStructure pr md fc sc ld lc dd cr) = delegated_children ld lc"
| "delegated_children (APath p # cs) (file_command # fcs) = delegated_children cs fcs"
| "delegated_children (AFileStructure f # cs) (file_command # fcs) =
     (file_command = None \<and> delegated f \<and> delegated_children cs fcs)"
| "delegated_children [] fcs = (fcs = [])"
| "delegated_children cs [] = (cs = [])"

text \<open>The structure with every \<open>commands_run\<close> mark reset.\<close>

fun erase_marks :: "FileStructure \<Rightarrow> FileStructure"
and erase_marks_child :: "path_or_file_structure \<Rightarrow> path_or_file_structure" where
  "erase_marks (FileStructure pr md fc sc ld lc dd cr) =
     FileStructure pr md fc sc (map erase_marks_child ld) lc dd False"
| "erase_marks_child (APath p) = APath p"
| "erase_marks_child (AFileStructure f) = AFileStructure (erase_marks f)"

text \<open>
  Root \<open>T\<close> declares the directory \<open>a\<close> (\<open>ABSENT_BUT_CREATE\<close>), then the file \<open>b.txt\<close>
  (\<open>PRESENT\<close>), then the file \<open>c.txt\<close> (\<open>ABSENT_BUT_CREATE\<close>).
\<close>

definition abort_text :: string where
  "abort_text = join [CHR 0x0A] [''T'', ''  a <4>'', ''  b.txt <0>'', ''  c.txt <4>'']"

definition abort_root :: FileStructure where
  "abort_root =
     FileStructure False [''T''] None None
       [AFileStructure (FileStructure False [''T'', ''a''] (Some ABSENT_BUT_CREATE) None [] [] [] False),
        APath [''T'', ''b.txt''], APath [''T'', ''c.txt'']]
       [None, Some PRESENT, Some ABSENT_BUT_CREATE]
       [(''c.txt'', 2), (''b.txt'', 1), (''a'', 0)] False"

text \<open>The same structure after a run that made \<open>T/a\<close> and then failed at \<open>b.txt\<close>.\<close>

definition abort_root_after :: FileStructure where
  "abort_root_after =
     FileStructure False [''T''] None None
       [AFileStructure (FileStructure False [''T'', ''a''] (Some ABSENT_BUT_CREATE) None [] [] [] True),
        APath [''T'', ''b.txt''], APath [''T'', ''c.txt'']]
       [None, Some PRESENT, Some ABSENT_BUT_CREATE]
       [(''c.txt'', 2), (''b.txt'', 1), (''a'', 0)] False"

definition abort_world_after :: world where
  "abort_world_after =
     \<lparr>disk = [([], Directory), ([''T''], Directory), ([''T'', ''a''], Directory)],
      stdin = [],
      trace = [(RunFileCommand ABSENT_BUT_CREATE [''T'', ''a''], None),
               (RunFileCommand PRESENT [''T'', ''b.txt''], Some AssertionError)]\<rparr>"

text \<open>On this disk \<open>T/old\<close> is a directory that holds a file.\<close>

definition stale_world :: world where
  "stale_world =
     \<lparr>disk = [([], Directory), ([''T''], Directory), ([''T'', ''old''], Directory),
              ([''T'', ''old'', ''f.txt''], RegularFile ''data'')],
      stdin = [], trace = []\<rparr>"

section \<open>Well-formed disks\<close>

text \<open>
  The paths above a path, nearest first: the current directory is the last ancestor of
  a relative path, the root that of an absolute one.
\<close>

function ancestors :: "path \<Rightarrow> path list" where
  "ancestors p = (if p = [] \<or> p = [''/''] then [] else butlast p # ancestors (butlast p))"
  by pat_completeness auto
termination
  by (relation "measure length") (auto simp: less_Suc_eq_le intro: diff_less)

declare ancestors.simps [simp del]

text \<open>
  A name a directory entry can have, and a disk as a file system keeps it: every entry
  but the current directory and the root has such a name and lies in a directory.
\<close>

definition valid_name :: "string \<Rightarrow> bool" where
  "valid_name n = (n \<noteq> [] \<and> n \<noteq> ''.'' \<and> CHR ''/'' \<notin> set n)"

definition wf_disk :: "disk \<Rightarrow> bool" where
  "wf_disk d =
     (\<forall>q \<in> set (map fst d). q \<noteq> [] \<and> q \<noteq> [''/''] \<longrightarrow> is_dir d (butlast q) \<and> valid_name (last q))"

text \<open>
  The removal that \<open>CREATE\<close> starts with goes ahead: the path is a regular file or an
  empty directory, or it is a non-empty directory, the confirmation is asked, and the
  operator types nothing or \<open>y\<close>.
\<close>

definition removal_goes_ahead :: "bool \<Rightarrow> world \<Rightarrow> path \<Rightarrow> bool" where
  "removal_goes_ahead pr w p =
     (case map_of (disk w) p of
        None \<Rightarrow> False
      | Some (RegularFile c) \<Rightarrow> True
      | Some Directory \<Rightarrow>
          listdir (disk w) p = Inr []
          \<or> (pr \<and> (case stdin w of [] \<Rightarrow> False
                     | answer # rest \<Rightarrow> lower (strip answer) = [] \<or> lower (strip answer) = ''y'')))"

definition asks :: "world \<Rightarrow> path \<Rightarrow> bool" where
  "asks w p = (is_dir (disk w) p \<and> listdir (disk w) p \<noteq> Inr [])"

text \<open>The disk of \<open>stale_world\<close> with an operator who confirms.\<close>

definition confirming_world :: world where
  "confirming_world = stale_world\<lparr>stdin := [''y'']\<rparr>"

text \<open>
  The disk entries directly under \<open>p\<close> that lie outside the declared set \<open>paths\<close>.
\<close>

definition undeclared :: "disk \<Rightarrow> path \<Rightarrow> path list \<Rightarrow> path list" where
  "undeclared d p paths = filter (\<lambda>q. is_child p q \<and> q \<notin> set paths) (map fst d)"

text \<open>
  A disk where \<open>T\<close> holds the files \<open>keep.txt\<close> and \<open>junk.txt\<close> and the non-empty
  directory \<open>old\<close>, with an operator who confirms.
\<close>

definition cluttered_world :: world where
  "cluttered_world =
     \<lparr>disk = [([], Directory), ([''T''], Directory),
              ([''T'', ''keep.txt''], RegularFile ''k''),
              ([''T'', ''junk.txt''], RegularFile ''j''),
              ([''T'', ''old''], Directory),
              ([''T'', ''old'', ''f.txt''], RegularFile ''data'')],
      stdin = [''y''], trace = []\<rparr>"

text \<open>
  Root \<open>T\<close> (\<open>CREATE_IF_ABSENT\<close>, \<open>REMOVE_EVERYTHING_ELSE\<close>) declares the directory \<open>a\<close>
  (\<open>ABSENT_BUT_CREATE\<close>) with the file \<open>x.txt\<close> (\<open>ABSENT_BUT_CREATE\<close>) in it, then the
  file \<open>b.txt\<close> (\<open>PRESENT\<close>), then the file \<open>c.txt\<close> (\<open>ABSENT_BUT_CREATE\<close>). On the disk
  \<open>T\<close> holds the file \<open>junk.txt\<close> only. \<open>order_root_after\<close> and \<open>order_world_after\<close> are
  the structure and the world after the run that fails at \<open>b.txt\<close>.
\<close>

definition order_text :: string where
  "order_text = join [CHR 0x0A]
     [''T <6>'', ''  <<1>>'', ''  a <4>'', ''    x.txt <4>'', ''  b.txt <0>'', ''  c.txt <4>'']"

definition order_a :: FileStructure where
  "order_a =
     FileStructure False [''T'', ''a''] (Some ABSENT_BUT_CREATE) None
       [APath [''T'', ''a'', ''x.txt'']] [Some ABSENT_BUT_CREATE] [(''x.txt'', 0)] False"

definition order_root :: FileStructure where
  "order_root =
     FileStructure False [''T''] (Some CREATE_IF_ABSENT) (Some REMOVE_EVERYTHING_ELSE)
       [AFileStructure order_a, APath [''T'', ''b.txt''], APath [''T'', ''c.txt'']]
       [None, Some PRESENT, Some ABSENT_BUT_CREATE]
       [(''c.txt'', 2), (''b.txt'', 1), (''a'', 0)] False"

definition order_world :: world where
  "order_world =
     \<lparr>disk = [([], Directory), ([''T''], Directory), ([''T'', ''junk.txt''], RegularFile ''j'')],
      stdin = [], trace = []\<rparr>"

definition order_a_done :: FileStructure where
  "order_a_done =
     FileStructure False [''T'', ''a''] (Some ABSENT_BUT_CREATE) None
       [APath [''T'', ''a'', ''x.txt'']] [Some ABSENT_BUT_CREATE] [(''x.txt'', 0)] True"

definition order_root_after :: FileStructure where
  "order_root_after =
     FileStructure False [''T''] (Some CREATE_IF_ABSENT) (Some REMOVE_EVERYTHING_ELSE)
       [AFileStructure order_a_done, APath [''T'', ''b.txt''], APath [''T'', ''c.txt'']]
       [None, Some PRESENT, Some ABSENT_BUT_CREATE]
       [(''c.txt'', 2), (''b.txt'', 1), (''a'', 0)] False"

definition order_world_after :: world where
  "order_world_after =
     \<lparr>disk = [([], Directory), ([''T''], Directory), ([''T'', ''a''], Directory),
              ([''T'', ''a'', ''x.txt''], RegularFile [])],
      stdin = [],
      trace = [(RunFileStructureCommand REMOVE_EVERYTHING_ELSE [''T''], None),
               (RunFileCommand CREATE_IF_ABSENT [''T''], None),
               (RunFileCommand ABSENT_BUT_CREATE [''T'', ''a''], None),
               (RunFileCommand ABSENT_BUT_CREATE [''T'', ''a'', ''x.txt''], None),
               (RunFileCommand PRESENT [''T'', ''b.txt''], Some AssertionError)]\<rparr>"

text \<open>
  Root \<open>T\<close> with a structure command declares the files \<open>keep.txt\<close> and \<open>new.txt\<close>;
  \<open>clutter_after\<close> is \<open>cluttered_world\<close> after \<open>REMOVE_EVERYTHING_ELSE\<close> was called with
  \<open>prompt\<close> false. Root \<open>T\<close> of \<open>deep_text\<close> declares the file \<open>a/b.txt\<close>.
\<close>

definition clutter_text :: string where
  "clutter_text = join [CHR 0x0A] [''T'', ''  <<1>>'', ''  keep.txt'', ''  new.txt'']"

definition clutter_root :: "FileStructureCommand \<Rightarrow> FileStructure" where
  "clutter_root c =
     FileStructure False [''T''] None (Some c)
       [APath [''T'', ''keep.txt''], APath [''T'', ''new.txt'']] [None, None]
       [(''new.txt'', 1), (''keep.txt'', 0)] False"

definition deep_text :: string where
  "deep_text = join [CHR 0x0A] [''T'', ''  <<1>>'', ''  a/b.txt'']"

definition deep_world :: world where
  "deep_world =
     \<lparr>disk = [([], Directory), ([''T''], Directory), ([''T'', ''a''], Directory),
              ([''T'', ''a'', ''b.txt''], RegularFile ''data'')],
      stdin = [''y''], trace = []\<rparr>"

definition clutter_after :: world where
  "clutter_after =
     \<lparr>disk = [([], Directory), ([''T''], Directory),
              ([''T'', ''keep.txt''], RegularFile ''k''),
              ([''T'', ''old''], Directory),
              ([''T'', ''old'', ''f.txt''], RegularFile ''data'')],
      stdin = [''y''],
      trace = [(RunFileStructureCommand REMOVE_EVERYTHING_ELSE [''T''], None)]\<rparr>"

definition deep_root :: FileStructure where
  "deep_root =
     FileStructure True [''T''] None (Some REMOVE_EVERYTHING_ELSE)
       [APath [''T'', ''a'', ''b.txt'']] [None] [(''a/b.txt'', 0)] False"

(*DEFINITIONS*)

section \<open>Properties\<close>

lemma scenario_parsed: "FileStructure_init 2 False scenario_text = Inr scenario_root"
  by code_simp

subsection \<open>Addressing\<close>

lemma getitem_is_path: "getitem f key = Inr x \<Longrightarrow> \<exists>p. x = APath p"
  by (subst (asm) getitem.simps)
     (auto simp: getitem_key_def split: if_splits sum.splits option.splits)

lemma split_not_Nil: "split s c \<noteq> []"
  by (induction s) (auto split: list.splits)

lemma split_two_pieces: "c \<in> set s \<Longrightarrow> \<exists>a b rest. split s c = a # b # rest"
proof (induction s)
  case Nil
  then show ?case by simp
next
  case (Cons x xs)
  show ?case
  proof (cases "x = c")
    case True
    then show ?thesis using split_not_Nil [of xs c] by (cases "split xs c") auto
  next
    case False
    with Cons obtain a b rest where "split xs c = a # b # rest" by auto
    with False show ?thesis by simp
  qed
qed

lemma subscript_after_error:
  "fold (\<lambda>filename acc.
           (case acc of
              Inl e \<Rightarrow> Inl e
            | Inr (APath p) \<Rightarrow> Inl TypeError
            | Inr (AFileStructure g) \<Rightarrow> getitem g filename)) xs (Inl e) = Inl e"
  by (induction xs) auto

text \<open>
  Whatever the structure and the key, a key that still holds a slash after the slashes
  at its ends are stripped raises: the first segment yields a path, and the second
  subscripts that path.
\<close>

lemma getitem_nested_key_raises:
  assumes "strip_slashes key = Inr k" and "CHR ''/'' \<in> set k"
  shows "\<exists>e. getitem f key = Inl e"
proof -
  from assms(2) obtain a b rest where sp: "split k (CHR ''/'') = a # b # rest"
    using split_two_pieces by blast
  from assms(1) have ne: "key \<noteq> []" "key \<noteq> ''/''"
    by (auto simp: strip_slashes_def)
  let ?step = "\<lambda>filename acc.
           (case acc of
              Inl e \<Rightarrow> Inl e
            | Inr (APath p) \<Rightarrow> Inl TypeError
            | Inr (AFileStructure g) \<Rightarrow> getitem g filename)"
  have "\<exists>e. fold ?step (split k (CHR ''/'')) (Inr (AFileStructure f)) = Inl e"
  proof (cases "getitem f a")
    case (Inl e)
    then show ?thesis by (simp add: sp subscript_after_error)
  next
    case (Inr x)
    then obtain p where "x = APath p" using getitem_is_path by blast
    with Inr show ?thesis by (simp add: sp subscript_after_error)
  qed
  then obtain e where "fold ?step (split k (CHR ''/'')) (Inr (AFileStructure f)) = Inl e" ..
  with assms ne show ?thesis
    by (subst getitem.simps) simp
qed

text \<open>
  C1. Index on a single-segment key that names a declared directory child is claimed to
  return the nested structure itself. In the scenario \<open>xyz\<close> is a declared directory child
  of the root (the first entry of \<open>list_dir\<close>, registered under its name), and
  \<open>root["xyz"]\<close> evaluates to the path \<open>T/xyz\<close>, which is not that structure.
\<close>

theorem index_of_directory_is_a_path:
  "list_dir scenario_root ! 0 = AFileStructure scenario_xyz
   \<and> map_of (dict_dir scenario_root) ''xyz'' = Some 0
   \<and> getitem scenario_root ''xyz'' = Inr (APath [''T'', ''xyz''])
   \<and> getitem scenario_root ''xyz'' \<noteq> Inr (AFileStructure scenario_xyz)"
  by code_simp

text \<open>
  C2. Divide on the two-segment key \<open>xyz/x.txt\<close> is claimed to return the path
  \<open>T/xyz/x.txt\<close>. In the scenario every segment is declared, and both \<open>root["xyz/x.txt"]\<close>
  and \<open>root / "xyz/x.txt"\<close> raise \<open>TypeError\<close>.
\<close>

theorem divide_of_nested_key_raises:
  "getitem scenario_xyz ''x.txt'' = Inr (APath [''T'', ''xyz'', ''x.txt''])
   \<and> getitem scenario_root ''xyz/x.txt'' = Inl TypeError
   \<and> truediv scenario_root ''xyz/x.txt'' = Inl TypeError"
  by code_simp

subsection \<open>Running the commands\<close>

lemma do_when_run: "commands_run f \<Longrightarrow> FileStructure_do f w = (None, f, w)"
  by (cases f) simp

lemma do_success_marks: "FileStructure_do f w = (None, f', w') \<Longrightarrow> commands_run f'"
  by (cases f) (auto split: if_splits option.splits prod.splits)

text \<open>
  C6. After a run of \<open>do\<close> that returns normally the structure is marked executed, and
  every later call of \<open>do\<close>, in whatever state of the disk, returns normally and leaves
  the structure, the disk, the terminal and the list of calls as they are.
\<close>

theorem reconcile_idempotent:
  "FileStructure_do f w = (None, f', w') \<Longrightarrow>
     commands_run f' \<and> (\<forall>w2. FileStructure_do f' w2 = (None, f', w2))"
  using do_success_marks do_when_run by blast

theorem reconcile_idempotent_witness:
  "fst (FileStructure_do scenario_root scenario_world) = None
   \<and> commands_run (fst (snd (FileStructure_do scenario_root scenario_world)))
   \<and> (\<forall>w2. FileStructure_do (fst (snd (FileStructure_do scenario_root scenario_world))) w2
              = (None, fst (snd (FileStructure_do scenario_root scenario_world)), w2))"
proof -
  have ok: "fst (FileStructure_do scenario_root scenario_world) = None"
    by code_simp
  then have "FileStructure_do scenario_root scenario_world
      = (None, fst (snd (FileStructure_do scenario_root scenario_world)),
         snd (snd (FileStructure_do scenario_root scenario_world)))"
    by (metis prod.collapse)
  from reconcile_idempotent [OF this] ok show ?thesis by simp
qed

lemma abort_parsed: "FileStructure_init 2 False abort_text = Inr abort_root"
  by code_simp

subsection \<open>Delegation\<close>

lemma delegated_children_append:
  "delegated_children a b \<Longrightarrow> delegated_children c d \<Longrightarrow> delegated_children (a @ c) (b @ d)"
proof (induction a arbitrary: b)
  case Nil
  then show ?case by simp
next
  case (Cons x a)
  then show ?case by (cases b; cases x) auto
qed

lemma delegated_children_paths: "delegated_children (map APath ps) (replicate (length ps) c)"
  by (induction ps) auto

lemma delegated_children_structures:
  "\<forall>g \<in> set gs. delegated g \<Longrightarrow> delegated_children (map AFileStructure gs) (replicate (length gs) None)"
  by (induction gs) auto

lemma register_children_delegated:
  "delegated self \<Longrightarrow> delegated_children xs ys \<Longrightarrow> delegated (register_children self names xs ys)"
  by (cases self) (simp add: register_children_def delegated_children_append)

lemma set_file_structure_command_delegated:
  "delegated self \<Longrightarrow> delegated (set_file_structure_command self c)"
  by (cases self) (simp add: set_file_structure_command_def)

lemma map_raising_Inr:
  "map_raising f xs = Inr ys \<Longrightarrow> length ys = length xs \<and> (\<forall>y \<in> set ys. \<exists>x \<in> set xs. f x = Inr y)"
proof (induction xs arbitrary: ys)
  case Nil
  then show ?case by simp
next
  case (Cons x xs)
  then show ?case by (auto split: sum.splits)
qed

lemma process_line_delegated:
  assumes new: "\<And>t g. new t = Inr g \<Longrightarrow> delegated g"
    and self: "delegated self"
    and run: "process_line new self lines line_no ni nls il = Inr (line_no', b, self')"
  shows "delegated self'"
proof -
  let ?line = "strip (lines ! line_no)"
  consider (cmd) "process_command_line self ?line line_no = Inr (line_no', b, self')"
    | (lst) "process_list_line new self lines ?line line_no ni nls il = Inr (line_no', b, self')"
    | (nam) "process_name_line new self lines ?line line_no ni nls il = Inr (line_no', b, self')"
    using run unfolding process_line_def Let_def by (auto split: if_splits)
  then show ?thesis
  proof cases
    case cmd
    with self show ?thesis
      by (auto simp: process_command_line_def set_file_structure_command_delegated
          split: sum.splits if_splits)
  next
    case lst
    have files: "delegated (register_children self names xs (replicate n c))"
      if "length xs = n" "\<forall>x \<in> set xs. \<exists>p. x = APath p" for names xs n c
    proof -
      from that(2) have "xs = map APath (map as_path xs)"
        by (induction xs) auto
      with that(1) self delegated_children_paths [of "map as_path xs" c] show ?thesis
        by (metis length_map register_children_delegated)
    qed
    have dirs: "delegated (register_children self names (map AFileStructure gs) (replicate n None))"
      if "length gs = n" "\<forall>g \<in> set gs. delegated g" for names gs n
      using that self delegated_children_structures [of gs]
      by (auto simp: register_children_delegated)
    from lst show ?thesis
      unfolding process_list_line_def Let_def
      by (auto split: sum.splits if_splits prod.splits dest!: map_raising_Inr
          intro!: files dirs dest: new)
  next
    case nam
    from nam self show ?thesis
      unfolding process_name_line_def Let_def
      by (auto split: sum.splits if_splits prod.splits intro!: register_children_delegated dest: new)
  qed
qed

lemma process_lines_loop_delegated:
  "(\<forall>t g. new t = Inr g \<longrightarrow> delegated g) \<Longrightarrow> delegated self \<Longrightarrow>
     process_lines_loop new lines il nls self line_no p b = Inr f \<Longrightarrow> delegated f"
proof (induction new lines il nls self line_no p b rule: process_lines_loop.induct)
  case (1 new lines il nls self line_no p b)
  show ?case
  proof (cases "line_no < length lines")
    case False
    with "1.prems" show ?thesis by (subst (asm) process_lines_loop.simps) simp
  next
    case True
    with "1.prems"(3) obtain ni line_no' b' self' where
      ni: "calc_num_indents nls p (lines ! line_no) il b = Inr ni" "ni = 1"
      and pl: "process_line new self lines line_no ni nls il = Inr (line_no', b', self')"
      and rest: "process_lines_loop new lines il nls self' line_no' ni b' = Inr f"
      by (subst (asm) process_lines_loop.simps) (auto split: sum.splits if_splits)
    from "1.prems"(1) have "\<And>t g. new t = Inr g \<Longrightarrow> delegated g" by blast
    from process_line_delegated [OF this "1.prems"(2) pl] have "delegated self'" .
    from "1.IH" [OF True ni(1) ni(2) pl refl refl "1.prems"(1) this rest] show ?thesis .
  qed
qed

lemma parsed_delegated: "FileStructure_init depth pr s = Inr f \<Longrightarrow> delegated f"
proof (induction depth arbitrary: s f)
  case 0
  then show ?case by simp
next
  case (Suc depth)
  have new: "\<forall>t g. FileStructure_init depth pr t = Inr g \<longrightarrow> delegated g"
    using Suc.IH by blast
  have start: "delegated (FileStructure pr md fc None [] [] [] False)" for md fc
    by simp
  from Suc.prems show ?case
    by (auto simp: Let_def process_lines_def split: sum.splits if_splits prod.splits
        dest: process_lines_loop_delegated [OF new start])
qed

subsection \<open>Marks are immaterial to delegation\<close>

lemma delegated_erase_marks:
  "delegated (erase_marks f) = delegated f"
  and delegated_children_erase_marks:
  "delegated_children (map erase_marks_child cs) fcs = delegated_children cs fcs"
  by (induction f and cs fcs rule: delegated_delegated_children.induct) auto

subsection \<open>The calls made follow the plan\<close>

lemma follows_plan_Nil: "follows_plan None [] []"
  by (simp add: follows_plan_def)

lemma follows_plan_single: "follows_plan r [(c, r)] [c]"
  by (cases r) (simp_all add: follows_plan_def)

lemma follows_plan_abort:
  "follows_plan (Some e) done pl \<Longrightarrow> follows_plan (Some e) done (pl @ pl')"
  by (auto simp: follows_plan_def prefix_def)

lemma follows_plan_append:
  assumes "follows_plan None d1 p1" and "follows_plan r d2 p2"
  shows "follows_plan r (d1 @ d2) (p1 @ p2)"
proof (cases r)
  case None
  with assms show ?thesis by (auto simp: follows_plan_def)
next
  case (Some e)
  with assms have ne: "d2 \<noteq> []" by (simp add: follows_plan_def)
  then have "butlast (d1 @ d2) = d1 @ butlast d2" "last (d1 @ d2) = last d2"
    by (simp_all add: butlast_append)
  with assms Some ne show ?thesis by (auto simp: follows_plan_def prefix_def)
qed

lemma on_disk_trace: "on_disk f w = (r, w') \<Longrightarrow> trace w' = trace w"
  by (auto simp: on_disk_def split: sum.splits)

lemma remove_path_trace: "remove_path p pr w = (r, w') \<Longrightarrow> trace w' = trace w"
  by (auto simp: remove_path_def Let_def dest: on_disk_trace split: if_splits sum.splits list.splits)

lemma absent_but_create_trace: "absent_but_create p w = (r, w') \<Longrightarrow> trace w' = trace w"
  by (auto simp: absent_but_create_def dest: on_disk_trace split: if_splits)

lemma present_but_remove_trace: "present_but_remove p pr w = (r, w') \<Longrightarrow> trace w' = trace w"
  by (auto simp: present_but_remove_def dest: remove_path_trace split: if_splits)

lemma and_then_trace:
  assumes "\<And>w r w'. f w = (r, w') \<Longrightarrow> trace w' = trace w"
    and "\<And>w r w'. g w = (r, w') \<Longrightarrow> trace w' = trace w"
    and "and_then f g w = (r, w')"
  shows "trace w' = trace w"
  using assms(3) unfolding and_then_def
  by (auto split: prod.splits option.splits dest!: assms(1) assms(2))

lemma FileCommand_run_trace: "FileCommand_run c p pr w = (r, w') \<Longrightarrow> trace w' = trace w"
proof (cases c)
  case PRESENT_BUT_RECREATE
  assume "FileCommand_run c p pr w = (r, w')"
  with PRESENT_BUT_RECREATE show ?thesis
    using and_then_trace [of "present_but_remove p pr" "absent_but_create p" w r w']
      present_but_remove_trace absent_but_create_trace by auto
next
  case CREATE
  assume "FileCommand_run c p pr w = (r, w')"
  with CREATE show ?thesis
    using and_then_trace [of "present_but_remove p pr" "absent_but_create p" w r w']
      present_but_remove_trace absent_but_create_trace by (auto split: if_splits)
qed (auto dest: present_but_remove_trace absent_but_create_trace split: if_splits)

lemma remove_each_trace: "remove_each ps pr w = (r, w') \<Longrightarrow> trace w' = trace w"
proof (induction ps arbitrary: w r w')
  case Nil
  then show ?case by simp
next
  case (Cons p ps)
  from Cons.prems have "and_then (remove_path p pr) (remove_each ps pr) w = (r, w')" by simp
  then show ?case
    by (rule and_then_trace [rotated 2]) (auto dest: remove_path_trace Cons.IH)
qed

lemma FileStructureCommand_run_trace:
  "FileStructureCommand_run c p paths pr w = (r, w') \<Longrightarrow> trace w' = trace w"
  by (auto simp: FileStructureCommand_run_def Let_def dest: remove_each_trace
      split: if_splits sum.splits FileStructureCommand.splits)

lemma recorded_step:
  assumes "\<And>c w r w'. f c w = (r, w') \<Longrightarrow> trace w' = trace w"
    and "if_not_None x (\<lambda>c. recorded (k c) (f c)) w = (r, w')"
  shows "\<exists>done. trace w' = trace w @ done
           \<and> follows_plan r done (case x of None \<Rightarrow> [] | Some c \<Rightarrow> [k c])"
proof (cases x)
  case None
  with assms(2) show ?thesis by (simp add: if_not_None_def follows_plan_Nil)
next
  case (Some c)
  with assms(2) obtain w1 where "f c w = (r, w1)" and "w' = w1\<lparr>trace := trace w1 @ [(k c, r)]\<rparr>"
    by (auto simp: if_not_None_def recorded_def split: prod.splits)
  with assms(1) have "trace w' = trace w @ [(k c, r)]" by auto
  with Some show ?thesis using follows_plan_single by auto
qed


lemma do_follows_plan:
  "delegated f \<Longrightarrow> FileStructure_do f w = (r, f', w') \<Longrightarrow>
     \<exists>done. trace w' = trace w @ done \<and> follows_plan r done (plan f)"
  and do_children_follows_plan:
  "delegated_children cs fcs \<Longrightarrow> do_children pr cs fcs w = (r, cs', w') \<Longrightarrow>
     \<exists>done. trace w' = trace w @ done \<and> follows_plan r done (plan_children cs fcs)"
proof (induction f w and pr cs fcs w arbitrary: r f' w' and r cs' w'
    rule: FileStructure_do_do_children.induct)
  case (1 pr md fc sc ld lc dd cr w)
  let ?p1 = "case sc of None \<Rightarrow> [] | Some c \<Rightarrow> [RunFileStructureCommand c md]"
  let ?p2 = "case fc of None \<Rightarrow> [] | Some c \<Rightarrow> [RunFileCommand c md]"
  from "1.prems"(1) have dc: "delegated_children ld lc" by simp
  note run = "1.prems"(2)
  show ?case
  proof (cases cr)
    case True
    with run show ?thesis by (auto simp: follows_plan_Nil)
  next
    case False
    then have pl: "plan (FileStructure pr md fc sc ld lc dd cr) = ?p1 @ ?p2 @ plan_children ld lc"
      by simp
    obtain r1 w1 where s1:
      "if_not_None sc (\<lambda>c. recorded (RunFileStructureCommand c md)
                              (FileStructureCommand_run c md (map as_path ld) pr)) w = (r1, w1)"
      by fastforce
    from recorded_step [where f = "\<lambda>c. FileStructureCommand_run c md (map as_path ld) pr"
        and k = "\<lambda>c. RunFileStructureCommand c md", OF _ s1]
    obtain d1 where d1: "trace w1 = trace w @ d1" "follows_plan r1 d1 ?p1"
      using FileStructureCommand_run_trace by blast
    show ?thesis
    proof (cases r1)
      case (Some e)
      with run False s1 have "r = Some e" "w' = w1" by auto
      with d1 Some pl show ?thesis using follows_plan_abort by fastforce
    next
      case None
      note r1 = None
      obtain r2 w2 where s2:
        "if_not_None fc (\<lambda>c. recorded (RunFileCommand c md) (FileCommand_run c md pr)) w1 = (r2, w2)"
        by fastforce
      from recorded_step [where f = "\<lambda>c. FileCommand_run c md pr"
          and k = "\<lambda>c. RunFileCommand c md", OF _ s2]
      obtain d2 where d2: "trace w2 = trace w1 @ d2" "follows_plan r2 d2 ?p2"
        using FileCommand_run_trace by blast
      show ?thesis
      proof (cases r2)
        case (Some e)
        with run False s1 s2 r1 have "r = Some e" "w' = w2" by auto
        moreover from d1 d2 r1 Some have "follows_plan (Some e) (d1 @ d2) (?p1 @ ?p2)"
          using follows_plan_append by blast
        then have "follows_plan (Some e) (d1 @ d2) ((?p1 @ ?p2) @ plan_children ld lc)"
          by (rule follows_plan_abort)
        ultimately show ?thesis using d1 d2 pl by auto
      next
        case None
        note r2 = None
        obtain r3 ld' w3 where s3: "do_children pr ld lc w2 = (r3, ld', w3)"
          using prod_cases3 by blast
        from "1.IH" [OF False s1 [symmetric] r1 s2 [symmetric] r2 dc s3]
        obtain d3 where d3: "trace w3 = trace w2 @ d3" "follows_plan r3 d3 (plan_children ld lc)"
          by blast
        from run False s1 s2 s3 r1 r2 have "r = r3" "w' = w3"
          by (auto split: option.splits)
        moreover from d1 d2 d3 r1 r2 have "follows_plan r3 (d1 @ d2 @ d3) (?p1 @ ?p2 @ plan_children ld lc)"
          using follows_plan_append by blast
        ultimately show ?thesis using d1 d2 d3 pl by auto
      qed
    qed
  qed
next
  case (2 pr p cs file_command fcs w)
  let ?p1 = "case file_command of None \<Rightarrow> [] | Some c \<Rightarrow> [RunFileCommand c p]"
  from "2.prems"(1) have dc: "delegated_children cs fcs" by simp
  note run = "2.prems"(2)
  obtain r1 w1 where s1:
    "if_not_None file_command (\<lambda>c. recorded (RunFileCommand c p) (FileCommand_run c p pr)) w = (r1, w1)"
    by fastforce
  from recorded_step [where f = "\<lambda>c. FileCommand_run c p pr"
      and k = "\<lambda>c. RunFileCommand c p", OF _ s1]
  obtain d1 where d1: "trace w1 = trace w @ d1" "follows_plan r1 d1 ?p1"
    using FileCommand_run_trace by blast
  show ?case
  proof (cases r1)
    case (Some e)
    with run s1 have "r = Some e" "w' = w1" by auto
    with d1 Some show ?thesis using follows_plan_abort by fastforce
  next
    case None
    obtain r2 cs2 w2 where s2: "do_children pr cs fcs w1 = (r2, cs2, w2)"
      using prod_cases3 by blast
    from "2.IH" [OF s1 [symmetric] None dc s2]
    obtain d2 where d2: "trace w2 = trace w1 @ d2" "follows_plan r2 d2 (plan_children cs fcs)"
      by blast
    from run s1 s2 None have "r = r2" "w' = w2" by auto
    moreover from d1 d2 None have "follows_plan r2 (d1 @ d2) (?p1 @ plan_children cs fcs)"
      using follows_plan_append by blast
    ultimately show ?thesis using d1 d2 by auto
  qed
next
  case (3 pr f cs file_command fcs w)
  from "3.prems"(1) have False: "\<not> file_command \<noteq> None" and df: "delegated f"
    and dc: "delegated_children cs fcs" by simp_all
  note run = "3.prems"(2)
  obtain r1 f1 w1 where s1: "FileStructure_do f w = (r1, f1, w1)"
    using prod_cases3 by blast
  from "3.IH"(1) [OF False df s1]
  obtain d1 where d1: "trace w1 = trace w @ d1" "follows_plan r1 d1 (plan f)"
    by blast
  show ?case
  proof (cases r1)
    case (Some e)
    with run False s1 have "r = Some e" "w' = w1" by auto
    with d1 Some show ?thesis using follows_plan_abort by fastforce
  next
    case None
    obtain r2 cs2 w2 where s2: "do_children pr cs fcs w1 = (r2, cs2, w2)"
      using prod_cases3 by blast
    from "3.IH"(2) [OF False s1 [symmetric] None refl dc s2]
    obtain d2 where d2: "trace w2 = trace w1 @ d2" "follows_plan r2 d2 (plan_children cs fcs)"
      by blast
    from run False s1 s2 None have "r = r2" "w' = w2" by auto
    moreover from d1 d2 None have "follows_plan r2 (d1 @ d2) (plan f @ plan_children cs fcs)"
      using follows_plan_append by blast
    ultimately show ?thesis using d1 d2 by auto
  qed
next
  case (4 pr fcs w)
  then show ?case by (auto simp: follows_plan_Nil)
next
  case (5 pr v va w)
  then show ?case by (auto simp: follows_plan_Nil)
qed


text \<open>
  C5. In a structure where no command is kept at the parent level for a nested directory
  (every parsed structure is one, by \<open>parsed_delegated\<close>, and so it stays when \<open>do\<close>
  sets marks), whatever a run of \<open>do\<close> returns, the calls it made are an initial segment
  of the plan: structure command, own command, children in declaration order, nested
  directories in place. A run that returns normally made every call of the plan, and
  each returned normally. A run that raises \<open>e\<close> made at least one call; the last call
  it made is the one that raised \<open>e\<close>, every call before it returned normally, and
  nothing planned after it was called.
\<close>

theorem reconcile_order:
  assumes "delegated f" and "FileStructure_do f w = (r, f', w')"
  shows "\<exists>done. trace w' = trace w @ done
           \<and> prefix (map fst done) (plan f)
           \<and> (case r of
                None \<Rightarrow> map fst done = plan f \<and> list_all (\<lambda>x. snd x = None) done
              | Some e \<Rightarrow> done \<noteq> [] \<and> list_all (\<lambda>x. snd x = None) (butlast done)
                            \<and> snd (last done) = Some e)"
  using do_follows_plan [OF assms] unfolding follows_plan_def .

theorem reconcile_order_witness:
  "FileStructure_init 2 False order_text = Inr order_root
   \<and> delegated order_root
   \<and> FileStructure_do order_root order_world = (Some AssertionError, order_root_after, order_world_after)
   \<and> plan order_root = [RunFileStructureCommand REMOVE_EVERYTHING_ELSE [''T''],
                         RunFileCommand CREATE_IF_ABSENT [''T''],
                         RunFileCommand ABSENT_BUT_CREATE [''T'', ''a''],
                         RunFileCommand ABSENT_BUT_CREATE [''T'', ''a'', ''x.txt''],
                         RunFileCommand PRESENT [''T'', ''b.txt''],
                         RunFileCommand ABSENT_BUT_CREATE [''T'', ''c.txt'']]
   \<and> prefix (map fst (trace order_world_after)) (plan order_root)
   \<and> trace order_world_after \<noteq> []
   \<and> list_all (\<lambda>x. snd x = None) (butlast (trace order_world_after))
   \<and> snd (last (trace order_world_after)) = Some AssertionError"
proof -
  have parsed: "FileStructure_init 2 False order_text = Inr order_root"
    by code_simp
  have dl: "delegated order_root"
    by code_simp
  have run: "FileStructure_do order_root order_world
               = (Some AssertionError, order_root_after, order_world_after)"
    by code_simp
  have pl: "plan order_root = [RunFileStructureCommand REMOVE_EVERYTHING_ELSE [''T''],
                         RunFileCommand CREATE_IF_ABSENT [''T''],
                         RunFileCommand ABSENT_BUT_CREATE [''T'', ''a''],
                         RunFileCommand ABSENT_BUT_CREATE [''T'', ''a'', ''x.txt''],
                         RunFileCommand PRESENT [''T'', ''b.txt''],
                         RunFileCommand ABSENT_BUT_CREATE [''T'', ''c.txt'']]"
    by code_simp
  have start: "trace order_world = []"
    by (simp add: order_world_def)
  from reconcile_order [OF dl run] start
  have "prefix (map fst (trace order_world_after)) (plan order_root)
      \<and> trace order_world_after \<noteq> []
      \<and> list_all (\<lambda>x. snd x = None) (butlast (trace order_world_after))
      \<and> snd (last (trace order_world_after)) = Some AssertionError"
    by auto
  with parsed dl run pl show ?thesis by blast
qed

subsection \<open>After a run that raised\<close>

lemma do_erase_marks:
  "FileStructure_do f w = (r, f', w') \<Longrightarrow> erase_marks f' = erase_marks f"
  and do_children_erase_marks:
  "do_children pr cs fcs w = (r, cs', w') \<Longrightarrow> map erase_marks_child cs' = map erase_marks_child cs"
proof (induction f w and pr cs fcs w arbitrary: r f' w' and r cs' w'
    rule: FileStructure_do_do_children.induct)
  case (1 pr md fc sc ld lc dd cr w)
  show ?case
  proof (cases cr)
    case True
    with "1.prems" show ?thesis by auto
  next
    case False
    obtain r1 w1 where s1:
      "if_not_None sc (\<lambda>c. recorded (RunFileStructureCommand c md)
                              (FileStructureCommand_run c md (map as_path ld) pr)) w = (r1, w1)"
      by fastforce
    obtain r2 w2 where s2:
      "if_not_None fc (\<lambda>c. recorded (RunFileCommand c md) (FileCommand_run c md pr)) w1 = (r2, w2)"
      by fastforce
    obtain r3 ld' w3 where s3: "do_children pr ld lc w2 = (r3, ld', w3)"
      using prod_cases3 by blast
    show ?thesis
    proof (cases "r1 = None \<and> r2 = None")
      case True
      then have "map erase_marks_child ld' = map erase_marks_child ld"
        using "1.IH" [OF False s1 [symmetric] _ s2 [symmetric] _ s3] by simp
      with "1.prems" False s1 s2 s3 True show ?thesis
        by (auto split: option.splits)
    next
      case False
      with "1.prems" \<open>\<not> cr\<close> s1 s2 show ?thesis
        by (auto split: option.splits)
    qed
  qed
next
  case (2 pr p cs file_command fcs w)
  obtain r1 w1 where s1:
    "if_not_None file_command (\<lambda>c. recorded (RunFileCommand c p) (FileCommand_run c p pr)) w = (r1, w1)"
    by fastforce
  obtain r2 cs2 w2 where s2: "do_children pr cs fcs w1 = (r2, cs2, w2)"
    using prod_cases3 by blast
  show ?case
  proof (cases r1)
    case None
    from "2.IH" [OF s1 [symmetric] None s2] "2.prems" s1 s2 None show ?thesis by auto
  next
    case (Some e)
    with "2.prems" s1 show ?thesis by auto
  qed
next
  case (3 pr f cs file_command fcs w)
  show ?case
  proof (cases "file_command \<noteq> None")
    case True
    with "3.prems" show ?thesis by auto
  next
    case False
    obtain r1 f1 w1 where s1: "FileStructure_do f w = (r1, f1, w1)"
      using prod_cases3 by blast
    obtain r2 cs2 w2 where s2: "do_children pr cs fcs w1 = (r2, cs2, w2)"
      using prod_cases3 by blast
    from "3.IH"(1) [OF False s1] have e1: "erase_marks f1 = erase_marks f" .
    show ?thesis
    proof (cases r1)
      case None
      from "3.IH"(2) [OF False s1 [symmetric] None refl s2] e1 "3.prems" False s1 s2 None
      show ?thesis by auto
    next
      case (Some e)
      with "3.prems" False s1 e1 show ?thesis by auto
    qed
  qed
next
  case (4 pr fcs w)
  then show ?case by auto
next
  case (5 pr v va w)
  then show ?case by auto
qed

lemma do_abort_unmarked: "FileStructure_do f w = (Some e, f', w') \<Longrightarrow> \<not> commands_run f'"
  by (cases f) (auto split: if_splits option.splits prod.splits)

lemma do_keeps_fields:
  "FileStructure_do f w = (r, f', w') \<Longrightarrow>
     prompt f' = prompt f \<and> main_dir f' = main_dir f
     \<and> main_dir_file_command f' = main_dir_file_command f
     \<and> main_dir_file_structure_command f' = main_dir_file_structure_command f
     \<and> list_dir_file_commands f' = list_dir_file_commands f \<and> dict_dir f' = dict_dir f"
  by (cases f) (auto split: if_splits option.splits prod.splits)

lemma plan_marked: "commands_run f \<Longrightarrow> plan f = []"
  by (cases f) simp

lemma plan_unmarked:
  "\<not> commands_run f \<Longrightarrow> plan f = own_plan f @ plan_children (list_dir f) (list_dir_file_commands f)"
  by (cases f) (simp add: own_plan_def cong: option.case_cong)

lemma follows_plan_length:
  "follows_plan r done pl \<Longrightarrow> length done \<le> length pl"
  "follows_plan None done pl \<Longrightarrow> length done = length pl"
  "follows_plan (Some e) done pl \<Longrightarrow> 0 < length done"
proof -
  show "follows_plan r done pl \<Longrightarrow> length done \<le> length pl"
    using prefix_length_le [of "map fst done" pl] by (simp add: follows_plan_def)
  show "follows_plan None done pl \<Longrightarrow> length done = length pl"
    by (auto simp: follows_plan_def)
  show "follows_plan (Some e) done pl \<Longrightarrow> 0 < length done"
    by (simp add: follows_plan_def)
qed

lemma do_children_marks:
  "delegated_children cs fcs \<Longrightarrow> do_children pr cs fcs w = (r, cs', w') \<Longrightarrow>
     trace w' = trace w @ done \<Longrightarrow> i < length cs \<Longrightarrow> cs ! i = AFileStructure c \<Longrightarrow>
     \<exists>c'. cs' ! i = AFileStructure c'
        \<and> (commands_run c' \<longleftrightarrow>
             commands_run c \<or> r = None
             \<or> length (plan_children (take (Suc i) cs) (take (Suc i) fcs)) < length done)"
proof (induction cs arbitrary: fcs w r cs' w' "done" i)
  case Nil
  then show ?case by simp
next
  case (Cons x cs)
  from Cons.prems(1) obtain file_command fcs' where fcs: "fcs = file_command # fcs'"
    by (cases fcs) auto
  note run = Cons.prems(2) [unfolded fcs]
  show ?case
  proof (cases x)
    case (APath p)
    let ?p1 = "case file_command of None \<Rightarrow> [] | Some c \<Rightarrow> [RunFileCommand c p]"
    from Cons.prems(1) fcs APath have dc: "delegated_children cs fcs'" by simp
    from Cons.prems(4,5) APath obtain j where i: "i = Suc j" "j < length cs" "cs ! j = AFileStructure c"
      by (cases i) auto
    obtain r1 w1 where s1:
      "if_not_None file_command (\<lambda>c. recorded (RunFileCommand c p) (FileCommand_run c p pr)) w = (r1, w1)"
      by fastforce
    from recorded_step [where f = "\<lambda>c. FileCommand_run c p pr"
        and k = "\<lambda>c. RunFileCommand c p", OF _ s1]
    obtain d1 where d1: "trace w1 = trace w @ d1" "follows_plan r1 d1 ?p1"
      using FileCommand_run_trace by blast
    have pl: "plan_children (take (Suc i) (x # cs)) (take (Suc i) fcs)
                = ?p1 @ plan_children (take (Suc j) cs) (take (Suc j) fcs')"
      using APath fcs i(1) by simp
    show ?thesis
    proof (cases r1)
      case (Some e)
      with run APath s1 have res: "r = Some e" "cs' = x # cs" "w' = w1" by auto
      with d1 Cons.prems(3) have "done = d1" by simp
      with d1(2) have "length done \<le> length ?p1" using follows_plan_length(1) by blast
      with pl res i show ?thesis by simp
    next
      case None
      obtain r2 cs2 w2 where s2: "do_children pr cs fcs' w1 = (r2, cs2, w2)"
        using prod_cases3 by blast
      from run APath s1 s2 None have res: "r = r2" "cs' = x # cs2" "w' = w2" by auto
      from do_children_follows_plan [OF dc s2]
      obtain d2 where d2: "trace w2 = trace w1 @ d2" by blast
      with d1 res Cons.prems(3) have dn: "done = d1 @ d2" by simp
      from d1(2) None have l1: "length d1 = length ?p1" using follows_plan_length(2) by blast
      from Cons.IH [OF dc s2 d2 i(2,3)]
      obtain c' where "cs2 ! j = AFileStructure c'"
        "commands_run c' \<longleftrightarrow> commands_run c \<or> r2 = None
           \<or> length (plan_children (take (Suc j) cs) (take (Suc j) fcs')) < length d2"
        by blast
      with res i pl dn l1 show ?thesis by simp
    qed
  next
    case (AFileStructure g)
    from Cons.prems(1) fcs AFileStructure have fcn: "file_command = None" and dg: "delegated g"
      and dc: "delegated_children cs fcs'" by simp_all
    obtain r1 g1 w1 where s1: "FileStructure_do g w = (r1, g1, w1)"
      using prod_cases3 by blast
    from do_follows_plan [OF dg s1]
    obtain d1 where d1: "trace w1 = trace w @ d1" "follows_plan r1 d1 (plan g)" by blast
    show ?thesis
    proof (cases r1)
      case (Some e)
      with run AFileStructure fcn s1 have res: "r = Some e" "cs' = AFileStructure g1 # cs" "w' = w1"
        by auto
      with d1 Cons.prems(3) have "done = d1" by simp
      with d1(2) have le: "length done \<le> length (plan g)" using follows_plan_length(1) by blast
      from s1 Some have ug1: "\<not> commands_run g1" using do_abort_unmarked by blast
      from s1 Some have ug: "\<not> commands_run g" using do_when_run [of g w] by auto
      show ?thesis
      proof (cases i)
        case 0
        with Cons.prems(5) AFileStructure have "c = g" by simp
        with 0 res ug ug1 le AFileStructure fcs fcn show ?thesis by simp
      next
        case (Suc j)
        with res le AFileStructure fcs fcn Cons.prems(5) show ?thesis by simp
      qed
    next
      case None
      obtain r2 cs2 w2 where s2: "do_children pr cs fcs' w1 = (r2, cs2, w2)"
        using prod_cases3 by blast
      from run AFileStructure fcn s1 s2 None have res: "r = r2" "cs' = AFileStructure g1 # cs2" "w' = w2"
        by auto
      from do_children_follows_plan [OF dc s2]
      obtain d2 where d2: "trace w2 = trace w1 @ d2" "follows_plan r2 d2 (plan_children cs fcs')"
        by blast
      with d1 res Cons.prems(3) have dn: "done = d1 @ d2" by simp
      from d1(2) None have l1: "length d1 = length (plan g)" using follows_plan_length(2) by blast
      from s1 None have mg1: "commands_run g1" using do_success_marks by blast
      show ?thesis
      proof (cases i)
        case 0
        have "r2 = None \<or> 0 < length d2"
          using d2(2) follows_plan_length(3) by (cases r2) auto
        with 0 res mg1 dn l1 AFileStructure fcs fcn show ?thesis by auto
      next
        case (Suc j)
        with Cons.prems(4,5) have j: "j < length cs" "cs ! j = AFileStructure c" by simp_all
        from Cons.IH [OF dc s2 d2(1) j]
        obtain c' where "cs2 ! j = AFileStructure c'"
          "commands_run c' \<longleftrightarrow> commands_run c \<or> r2 = None
             \<or> length (plan_children (take (Suc j) cs) (take (Suc j) fcs')) < length d2"
          by blast
        with Suc res dn l1 AFileStructure fcs fcn show ?thesis by simp
      qed
    qed
  qed
qed

lemma plan_through_own: "length (own_plan f) \<le> length (plan_through f i)"
  by (simp add: plan_through_def)

lemma do_marks:
  assumes dl: "delegated f" and run: "FileStructure_do f w = (Some e, f', w')"
    and tr: "trace w' = trace w @ done"
    and i: "i < length (list_dir f)" "list_dir f ! i = AFileStructure c"
  shows "\<exists>c'. list_dir f' ! i = AFileStructure c'
           \<and> (commands_run c' \<longleftrightarrow> commands_run c \<or> length (plan_through f i) < length done)"
proof (cases f)
  case (FileStructure pr md fc sc ld lc dd cr)
  let ?p1 = "case sc of None \<Rightarrow> [] | Some c \<Rightarrow> [RunFileStructureCommand c md]"
  let ?p2 = "case fc of None \<Rightarrow> [] | Some c \<Rightarrow> [RunFileCommand c md]"
  from dl FileStructure have dc: "delegated_children ld lc" by simp
  from run FileStructure have ncr: "\<not> cr" by (cases cr) auto
  have own: "own_plan f = ?p1 @ ?p2" using FileStructure by (simp add: own_plan_def cong: option.case_cong)
  have thr: "plan_through f i = ?p1 @ ?p2 @ plan_children (take (Suc i) ld) (take (Suc i) lc)"
    using FileStructure by (simp add: plan_through_def own_plan_def cong: option.case_cong)
  from i FileStructure have i': "i < length ld" "ld ! i = AFileStructure c" by simp_all
  obtain r1 w1 where s1:
    "if_not_None sc (\<lambda>c. recorded (RunFileStructureCommand c md)
                            (FileStructureCommand_run c md (map as_path ld) pr)) w = (r1, w1)"
    by fastforce
  from recorded_step [where f = "\<lambda>c. FileStructureCommand_run c md (map as_path ld) pr"
      and k = "\<lambda>c. RunFileStructureCommand c md", OF _ s1]
  obtain d1 where d1: "trace w1 = trace w @ d1" "follows_plan r1 d1 ?p1"
    using FileStructureCommand_run_trace by blast
  show ?thesis
  proof (cases r1)
    case (Some e1)
    with run FileStructure ncr s1 have res: "f' = f" "w' = w1" by auto
    with d1 tr have "done = d1" by simp
    with d1(2) have "length done \<le> length ?p1" using follows_plan_length(1) by blast
    with thr res i show ?thesis by simp
  next
    case None
    note r1 = None
    obtain r2 w2 where s2:
      "if_not_None fc (\<lambda>c. recorded (RunFileCommand c md) (FileCommand_run c md pr)) w1 = (r2, w2)"
      by fastforce
    from recorded_step [where f = "\<lambda>c. FileCommand_run c md pr"
        and k = "\<lambda>c. RunFileCommand c md", OF _ s2]
    obtain d2 where d2: "trace w2 = trace w1 @ d2" "follows_plan r2 d2 ?p2"
      using FileCommand_run_trace by blast
    from d1(2) r1 have l1: "length d1 = length ?p1" using follows_plan_length(2) by blast
    show ?thesis
    proof (cases r2)
      case (Some e2)
      with run FileStructure ncr s1 s2 r1 have res: "f' = f" "w' = w2" by auto
      with d1 d2 tr have "done = d1 @ d2" by simp
      with d2(2) l1 have "length done \<le> length (?p1 @ ?p2)"
        using follows_plan_length(1) [of r2 d2 ?p2] by simp
      with thr res i show ?thesis by simp
    next
      case None
      note r2 = None
      from d2(2) r2 have l2: "length d2 = length ?p2" using follows_plan_length(2) by blast
      obtain r3 ld' w3 where s3: "do_children pr ld lc w2 = (r3, ld', w3)"
        using prod_cases3 by blast
      from run FileStructure ncr s1 s2 s3 r1 r2
      have res: "r3 = Some e" "f' = FileStructure pr md fc sc ld' lc dd cr" "w' = w3"
        by (auto split: option.splits)
      from do_children_follows_plan [OF dc s3]
      obtain d3 where d3: "trace w3 = trace w2 @ d3" by blast
      with d1 d2 res tr have dn: "done = d1 @ d2 @ d3" by simp
      from do_children_marks [OF dc s3 d3 i']
      obtain c' where "ld' ! i = AFileStructure c'"
        "commands_run c' \<longleftrightarrow> commands_run c \<or> r3 = None
           \<or> length (plan_children (take (Suc i) ld) (take (Suc i) lc)) < length d3"
        by blast
      with res dn l1 l2 thr show ?thesis by simp
    qed
  qed
qed


text \<open>
  C10, as the code has it. The run of \<open>abort_root\<close> raises at \<open>b.txt\<close> after the nested
  directory \<open>a\<close> has run its \<open>ABSENT_BUT_CREATE\<close> and made \<open>T/a\<close>. The root is left
  unmarked, but \<open>a\<close> is marked executed: the next call of \<open>do\<close> goes straight to
  \<open>b.txt\<close> and does not execute the command of \<open>a\<close> again.
\<close>

theorem completed_directory_not_rerun:
  "FileStructure_do abort_root scenario_world
     = (Some AssertionError, abort_root_after, abort_world_after)
   \<and> \<not> commands_run abort_root_after
   \<and> (RunFileCommand ABSENT_BUT_CREATE [''T'', ''a''], None) \<in> set (trace abort_world_after)
   \<and> [''T'', ''a''] \<in> set (map fst (disk abort_world_after))
   \<and> FileStructure_do abort_root_after abort_world_after
     = (Some AssertionError, abort_root_after,
        abort_world_after\<lparr>trace := trace abort_world_after
                                 @ [(RunFileCommand PRESENT [''T'', ''b.txt''], Some AssertionError)]\<rparr>)"
  by code_simp

text \<open>
  C10, amended. When a run of \<open>do\<close> raises, the structure it was called on is left
  unmarked and is otherwise the same up to the marks of its nested directories. A
  nested directory child is marked afterwards exactly when it was marked before or its
  own run completed in the failed run, that is, when more calls were made than the plan
  holds up to and including that child; a marked child has nothing planned, and \<open>do\<close>
  on it returns at once and changes nothing. Whatever the state of the world, the next
  call of \<open>do\<close> on the structure follows the plan that starts again with the structure
  command and the own command of the structure and goes through its children in
  declaration order: every command of an ordinary file is in it again, whether it
  succeeded before or not, and a nested directory that is marked executed contributes
  nothing.
\<close>

theorem aborted_run_resumes:
  assumes "delegated f" and "FileStructure_do f w = (Some e, f', w')"
  shows "\<not> commands_run f'
     \<and> erase_marks f' = erase_marks f
     \<and> (\<exists>done. trace w' = trace w @ done
          \<and> (\<forall>i < length (list_dir f). \<forall>c. list_dir f ! i = AFileStructure c \<longrightarrow>
               (\<exists>c'. list_dir f' ! i = AFileStructure c'
                  \<and> (commands_run c' \<longleftrightarrow>
                       commands_run c \<or> length (plan_through f i) < length done)
                  \<and> (commands_run c' \<longrightarrow>
                       plan c' = [] \<and> (\<forall>w2. FileStructure_do c' w2 = (None, c', w2))))))
     \<and> (\<forall>w2. \<exists>done2.
            trace (snd (snd (FileStructure_do f' w2))) = trace w2 @ done2
            \<and> follows_plan (fst (FileStructure_do f' w2)) done2
                 (own_plan f @ plan_children (list_dir f') (list_dir_file_commands f)))"
proof -
  note run = assms(2)
  from run have um: "\<not> commands_run f'" by (rule do_abort_unmarked)
  from run have er: "erase_marks f' = erase_marks f" by (rule do_erase_marks)
  from assms(1) er have dl': "delegated f'"
    using delegated_erase_marks(1) by metis
  from do_follows_plan [OF assms]
  obtain d where d: "trace w' = trace w @ d" by blast
  have marks: "\<exists>c'. list_dir f' ! i = AFileStructure c'
                  \<and> (commands_run c' \<longleftrightarrow>
                       commands_run c \<or> length (plan_through f i) < length d)
                  \<and> (commands_run c' \<longrightarrow>
                       plan c' = [] \<and> (\<forall>w2. FileStructure_do c' w2 = (None, c', w2)))"
    if "i < length (list_dir f)" "list_dir f ! i = AFileStructure c" for i c
  proof -
    from do_marks [OF assms d that]
    obtain c' where c': "list_dir f' ! i = AFileStructure c'"
      "commands_run c' \<longleftrightarrow> commands_run c \<or> length (plan_through f i) < length d"
      by blast
    moreover have "plan c' = [] \<and> (\<forall>w2. FileStructure_do c' w2 = (None, c', w2))"
      if "commands_run c'"
      using that plan_marked do_when_run by blast
    ultimately show ?thesis by blast
  qed
  have again: "\<exists>done2. trace (snd (snd (FileStructure_do f' w2))) = trace w2 @ done2
            \<and> follows_plan (fst (FileStructure_do f' w2)) done2
                 (own_plan f @ plan_children (list_dir f') (list_dir_file_commands f))" for w2
  proof -
    obtain r2 f2 w2' where run2: "FileStructure_do f' w2 = (r2, f2, w2')"
      using prod_cases3 by blast
    from do_follows_plan [OF dl' run2]
    obtain d2 where "trace w2' = trace w2 @ d2" "follows_plan r2 d2 (plan f')" by blast
    moreover from do_keeps_fields [OF run]
    have "own_plan f' = own_plan f" "list_dir_file_commands f' = list_dir_file_commands f"
      by (simp_all add: own_plan_def cong: option.case_cong)
    ultimately show ?thesis using run2 um by (simp add: plan_unmarked)
  qed
  from um er d marks again show ?thesis by blast
qed

theorem aborted_run_resumes_witness:
  "delegated order_root
   \<and> FileStructure_do order_root order_world = (Some AssertionError, order_root_after, order_world_after)
   \<and> \<not> commands_run order_root_after
   \<and> erase_marks order_root_after = erase_marks order_root
   \<and> list_dir order_root ! 0 = AFileStructure order_a
   \<and> \<not> commands_run order_a
   \<and> length (plan_through order_root 0) = 4
   \<and> length (trace order_world_after) = 5
   \<and> list_dir order_root_after ! 0 = AFileStructure order_a_done
   \<and> commands_run order_a_done
   \<and> plan order_a_done = []
   \<and> (\<forall>w2. FileStructure_do order_a_done w2 = (None, order_a_done, w2))
   \<and> own_plan order_root @ plan_children (list_dir order_root_after) (list_dir_file_commands order_root)
       = [RunFileStructureCommand REMOVE_EVERYTHING_ELSE [''T''],
          RunFileCommand CREATE_IF_ABSENT [''T''],
          RunFileCommand PRESENT [''T'', ''b.txt''],
          RunFileCommand ABSENT_BUT_CREATE [''T'', ''c.txt'']]"
proof -
  have dl: "delegated order_root"
    by code_simp
  have run: "FileStructure_do order_root order_world
               = (Some AssertionError, order_root_after, order_world_after)"
    by code_simp
  have start: "trace order_world = []"
    by (simp add: order_world_def)
  have child: "0 < length (list_dir order_root)" "list_dir order_root ! 0 = AFileStructure order_a"
    "\<not> commands_run order_a"
    by code_simp+
  have after: "list_dir order_root_after ! 0 = AFileStructure order_a_done"
    by code_simp
  have len: "length (plan_through order_root 0) = 4" "length (trace order_world_after) = 5"
    by code_simp+
  have pl: "own_plan order_root
              @ plan_children (list_dir order_root_after) (list_dir_file_commands order_root)
       = [RunFileStructureCommand REMOVE_EVERYTHING_ELSE [''T''],
          RunFileCommand CREATE_IF_ABSENT [''T''],
          RunFileCommand PRESENT [''T'', ''b.txt''],
          RunFileCommand ABSENT_BUT_CREATE [''T'', ''c.txt'']]"
    by code_simp
  from aborted_run_resumes [OF dl run] start
  have um: "\<not> commands_run order_root_after"
    and er: "erase_marks order_root_after = erase_marks order_root"
    and marks: "\<forall>i < length (list_dir order_root). \<forall>c. list_dir order_root ! i = AFileStructure c \<longrightarrow>
               (\<exists>c'. list_dir order_root_after ! i = AFileStructure c'
                  \<and> (commands_run c' \<longleftrightarrow>
                       commands_run c
                       \<or> length (plan_through order_root i) < length (trace order_world_after))
                  \<and> (commands_run c' \<longrightarrow>
                       plan c' = [] \<and> (\<forall>w2. FileStructure_do c' w2 = (None, c', w2))))"
    by auto
  from marks child after len
  have "commands_run order_a_done \<and> plan order_a_done = []
          \<and> (\<forall>w2. FileStructure_do order_a_done w2 = (None, order_a_done, w2))"
    by fastforce
  with dl run um er child after len pl show ?thesis by blast
qed


subsection \<open>Removal without confirmation\<close>

lemma is_dir_exists: "is_dir d p \<Longrightarrow> path_exists d p"
  by (simp add: is_dir_def path_exists_def)

text \<open>
  C3. With the confirmation suppressed (\<open>prompt\<close> false), a command that removes a
  non-empty directory is claimed to delete it, so that a create step that follows
  succeeds. In the code \<open>_remove\<close> then does nothing at all: \<open>PRESENT_BUT_REMOVE\<close> returns
  normally with the directory and its content still there, and \<open>PRESENT_BUT_RECREATE\<close>
  and \<open>CREATE\<close> raise the \<open>AssertionError\<close> of \<open>_absent_but_create\<close>; the world is
  unchanged in all three.
\<close>

theorem unprompted_removal_keeps_directory:
  "is_dir (disk w) p \<Longrightarrow> listdir (disk w) p = Inr names \<Longrightarrow> names \<noteq> [] \<Longrightarrow>
     FileCommand_run PRESENT_BUT_REMOVE p False w = (None, w)
     \<and> FileCommand_run PRESENT_BUT_RECREATE p False w = (Some AssertionError, w)
     \<and> FileCommand_run CREATE p False w = (Some AssertionError, w)"
  by (simp add: present_but_remove_def remove_path_def absent_but_create_def and_then_def
        is_dir_exists)

theorem unprompted_removal_keeps_directory_witness:
  "is_dir (disk stale_world) [''T'', ''old'']
   \<and> listdir (disk stale_world) [''T'', ''old''] = Inr [''f.txt'']
   \<and> FileCommand_run PRESENT_BUT_REMOVE [''T'', ''old''] False stale_world = (None, stale_world)
   \<and> FileCommand_run PRESENT_BUT_RECREATE [''T'', ''old''] False stale_world
        = (Some AssertionError, stale_world)
   \<and> FileCommand_run CREATE [''T'', ''old''] False stale_world = (Some AssertionError, stale_world)"
proof -
  have a: "is_dir (disk stale_world) [''T'', ''old'']" by code_simp
  have b: "listdir (disk stale_world) [''T'', ''old''] = Inr [''f.txt'']" by code_simp
  from unprompted_removal_keeps_directory [OF a b] a b show ?thesis by simp
qed

subsection \<open>Indentation\<close>

text \<open>
  C7. Parsing is claimed to fail unless the depth of every line after the first is a
  multiple of the indent unit of lines 1 and 2 and grows by at most one unit after a
  directory line. The first text has indent unit 4 and a third line of depth 9; the
  second has indent unit 2 and a third line of depth 6 right under a line of depth 2.
  Both are parsed without an error: the lines under a directory line are collected by
  a floor division and handed to a nested parse that derives an indent unit of its own.
\<close>

theorem nested_indentation_accepted:
  "calc_indent_length [''T'', ''    xyz'', ''         x.txt''] = Inr 4
   \<and> num_spaces_of ''         x.txt'' - num_spaces_of ''T'' = 9
   \<and> FileStructure_init 2 False (join [CHR 0x0A] [''T'', ''    xyz'', ''         x.txt''])
       = Inr (FileStructure False [''T''] None None
               [AFileStructure
                 (FileStructure False [''T'', ''xyz''] None None
                    [APath [''T'', ''xyz'', ''x.txt'']] [None] [(''x.txt'', 0)] False)]
               [None] [(''xyz'', 0)] False)
   \<and> calc_indent_length [''T'', ''  a'', ''      b''] = Inr 2
   \<and> num_spaces_of ''      b'' - num_spaces_of ''T'' = 6
   \<and> FileStructure_init 3 False (join [CHR 0x0A] [''T'', ''  a'', ''      b''])
       = Inr (FileStructure False [''T''] None None
               [AFileStructure
                 (FileStructure False [''T'', ''a''] None None
                    [AFileStructure (FileStructure False [''T'', ''a'', ''b''] None None [] [] [] False)]
                    [None] [(''b'', 0)] False)]
               [None] [(''a'', 0)] False)"
  by code_simp

subsection \<open>Creation\<close>

lemma map_of_filter_key:
  "map_of (filter (\<lambda>(q, e). P q) d) x = (if P x then map_of d x else None)"
  by (induction d) auto

lemma map_of_rmtree: "map_of (rmtree d p) x = (if prefix p x then None else map_of d x)"
  unfolding rmtree_def using map_of_filter_key [of "\<lambda>q. \<not> prefix p q" d x] by simp

lemma map_of_rmdir: "map_of (rmdir d p) x = (if x = p then None else map_of d x)"
  unfolding rmdir_def using map_of_filter_key [of "\<lambda>q. q \<noteq> p" d x] by simp

lemma map_of_snoc:
  "map_of (d @ [(p, e)]) x = (case map_of d x of Some y \<Rightarrow> Some y | None \<Rightarrow> if x = p then Some e else None)"
  by (induction d) auto

lemma wf_parent_is_dir:
  assumes "wf_disk d" and "path_exists d q" and "q \<noteq> []" and "q \<noteq> [''/'']"
  shows "is_dir d (butlast q)"
proof -
  from assms(2) have "q \<in> set (map fst d)"
    by (auto simp: path_exists_def map_of_eq_None_iff)
  with assms show ?thesis unfolding wf_disk_def by blast
qed

text \<open>On a well-formed disk whatever has an entry under it is a directory.\<close>

lemma wf_above_is_dir:
  assumes "wf_disk d" and "p \<noteq> []"
  shows "ys \<noteq> [] \<Longrightarrow> path_exists d (p @ ys) \<Longrightarrow> is_dir d p"
proof (induction ys rule: rev_induct)
  case Nil
  then show ?case by simp
next
  case (snoc y ys)
  from assms(2) have "p @ ys @ [y] \<noteq> []" "p @ ys @ [y] \<noteq> [''/'']"
    by (auto simp: append_eq_Cons_conv)
  with wf_parent_is_dir [OF assms(1), of "p @ ys @ [y]"] snoc.prems
  have dir: "is_dir d (p @ ys)" by (simp add: butlast_append)
  show ?case
  proof (cases "ys = []")
    case True
    with dir show ?thesis by simp
  next
    case False
    with dir snoc.IH show ?thesis by (simp add: is_dir_def path_exists_def)
  qed
qed

lemma wf_nothing_under_absent:
  assumes "wf_disk d" and "p \<noteq> []" and "\<not> path_exists d p"
  shows "\<not> path_exists d (p @ ys)"
proof (cases "ys = []")
  case True
  with assms show ?thesis by simp
next
  case False
  show ?thesis
  proof
    assume "path_exists d (p @ ys)"
    with wf_above_is_dir [OF assms(1,2) False] have "is_dir d p" .
    with assms(3) show False by (simp add: is_dir_def path_exists_def)
  qed
qed

lemma wf_nothing_under_file:
  assumes "wf_disk d" and "p \<noteq> []" and "map_of d p = Some (RegularFile c)" and "ys \<noteq> []"
  shows "\<not> path_exists d (p @ ys)"
  using wf_above_is_dir [OF assms(1,2,4)] assms(3) by (auto simp: is_dir_def)

lemma listdir_empty_no_child:
  assumes "listdir d p = Inr []" and "p \<noteq> []"
  shows "\<not> path_exists d (p @ [y])"
proof
  assume "path_exists d (p @ [y])"
  then have "p @ [y] \<in> set (map fst d)"
    by (auto simp: path_exists_def map_of_eq_None_iff)
  moreover from assms(2) have "is_child p (p @ [y])"
    by (auto simp: is_child_def parent_def append_eq_Cons_conv)
  ultimately have "filter (is_child p) (map fst d) \<noteq> []"
    unfolding filter_empty_conv by blast
  with assms(1) show False
    by (auto simp: listdir_def split: option.splits entry.splits)
qed

lemma wf_nothing_under_empty_dir:
  assumes "wf_disk d" and "p \<noteq> []" and "listdir d p = Inr []" and "ys \<noteq> []"
  shows "\<not> path_exists d (p @ ys)"
proof (cases ys)
  case Nil
  with assms(4) show ?thesis by simp
next
  case (Cons y zs)
  show ?thesis
  proof (cases "zs = []")
    case True
    with Cons listdir_empty_no_child [OF assms(3,2)] show ?thesis by simp
  next
    case False
    have "\<not> is_dir d (p @ [y])"
      using listdir_empty_no_child [OF assms(3,2), of y] by (auto simp: is_dir_def path_exists_def)
    with wf_above_is_dir [OF assms(1), of "p @ [y]" zs] False Cons show ?thesis by auto
  qed
qed

text \<open>Where nothing lies under \<open>p\<close>, removing the tree is removing the entry.\<close>

lemma rmtree_single:
  assumes "\<And>ys. ys \<noteq> [] \<Longrightarrow> \<not> path_exists d (p @ ys)"
  shows "rmtree d p = filter (\<lambda>(q, e). q \<noteq> p) d"
  unfolding rmtree_def
proof (rule filter_cong [OF refl])
  fix x assume x: "x \<in> set d"
  obtain q e where qe: "x = (q, e)" by (cases x)
  with x have ex: "path_exists d q"
    by (auto simp: path_exists_def map_of_eq_None_iff intro: rev_image_eqI)
  have "prefix p q \<longleftrightarrow> q = p"
  proof
    assume "prefix p q"
    then obtain ys where "q = p @ ys" by (auto simp: prefix_def)
    with ex assms [of ys] show "q = p" by auto
  qed simp
  with qe show "(case x of (q, e) \<Rightarrow> \<not> prefix p q) = (case x of (q, e) \<Rightarrow> q \<noteq> p)" by simp
qed


lemma ancestors_step: "p \<noteq> [] \<Longrightarrow> p \<noteq> [''/''] \<Longrightarrow> ancestors p = butlast p # ancestors (butlast p)"
  by (subst ancestors.simps) simp

lemma ancestors_shorter: "q \<in> set (ancestors p) \<Longrightarrow> length q < length p"
proof (induction p arbitrary: q rule: ancestors.induct)
  case (1 p)
  show ?case
  proof (cases "p = [] \<or> p = [''/'']")
    case True
    then have "ancestors p = []" by (subst ancestors.simps) simp
    with "1.prems" show ?thesis by simp
  next
    case False
    with "1.prems" have "q = butlast p \<or> q \<in> set (ancestors (butlast p))"
      by (simp add: ancestors_step)
    moreover from False have "length (butlast p) < length p" by (cases p) auto
    ultimately show ?thesis using "1.IH" [OF False] by fastforce
  qed
qed

lemma wf_ancestors_dirs:
  assumes "wf_disk d"
  shows "path_exists d q \<Longrightarrow> a \<in> set (ancestors q) \<Longrightarrow> is_dir d a"
proof (induction q arbitrary: a rule: ancestors.induct)
  case (1 q)
  show ?case
  proof (cases "q = [] \<or> q = [''/'']")
    case True
    then have "ancestors q = []" by (subst ancestors.simps) simp
    with "1.prems" show ?thesis by simp
  next
    case False
    with wf_parent_is_dir [OF assms "1.prems"(1)] have dir: "is_dir d (butlast q)" by simp
    from "1.prems"(2) False have "a = butlast q \<or> a \<in> set (ancestors (butlast q))"
      by (simp add: ancestors_step)
    with dir "1.IH" [OF False] show ?thesis by (auto simp: is_dir_exists)
  qed
qed

lemma map_of_new_directories:
  "map_of (d @ map (\<lambda>q. (q, Directory)) news) x
     = (case map_of d x of Some y \<Rightarrow> Some y | None \<Rightarrow> if x \<in> set news then Some Directory else None)"
proof -
  have "map_of (map (\<lambda>q. (q, Directory)) news) x = (if x \<in> set news then Some Directory else None)"
    by (induction news) auto
  then show ?thesis by (simp add: map_add_def split: option.splits)
qed

lemma makedirs_creates:
  "wf_disk d \<Longrightarrow> \<not> path_exists d p \<Longrightarrow> \<exists>q \<in> set (ancestors p). path_exists d q \<Longrightarrow>
         \<forall>q \<in> set (ancestors p). path_exists d q \<longrightarrow> is_dir d q \<Longrightarrow>
         \<exists>news. makedirs d p = Inr (d @ map (\<lambda>q. (q, Directory)) news)
                \<and> set news = {q \<in> insert p (set (ancestors p)). \<not> path_exists d q}"
proof (induction d p rule: makedirs.induct)
  case (1 d p)
  from "1.prems"(3) have "ancestors p \<noteq> []" by auto
  then have ne: "p \<noteq> []" "p \<noteq> [''/'']" by (auto simp: ancestors.simps)
  then have anc: "ancestors p = butlast p # ancestors (butlast p)" by (rule ancestors_step)
  from ne have par: "parent p = butlast p" by (simp add: parent_def)
  show ?case
  proof (cases "butlast p \<noteq> [] \<and> \<not> path_exists d (butlast p)")
    case True
    from "1.prems"(3) True anc have "\<exists>q \<in> set (ancestors (butlast p)). path_exists d q" by auto
    moreover from "1.prems"(4) anc
    have "\<forall>q \<in> set (ancestors (butlast p)). path_exists d q \<longrightarrow> is_dir d q" by auto
    ultimately obtain news where n: "makedirs d (butlast p) = Inr (d @ map (\<lambda>q. (q, Directory)) news)"
      "set news = {q \<in> insert (butlast p) (set (ancestors (butlast p))). \<not> path_exists d q}"
      using "1.IH" [OF True "1.prems"(1)] True "1.prems"(2) by blast
    let ?d1 = "d @ map (\<lambda>q. (q, Directory)) news"
    from n(2) True have inn: "butlast p \<in> set news" by auto
    have "p \<notin> set news"
    proof
      assume "p \<in> set news"
      with n(2) have "p = butlast p \<or> p \<in> set (ancestors (butlast p))" by auto
      moreover from ne have "length (butlast p) < length p" by (cases p) auto
      ultimately have "length p < length p"
        using ancestors_shorter [of p "butlast p"] by (metis less_trans)
      then show False by simp
    qed
    with "1.prems"(2) have "\<not> path_exists ?d1 p"
      by (simp add: path_exists_def map_of_new_directories del: map_of_append)
    moreover from inn True have "map_of ?d1 (butlast p) = Some Directory"
      by (simp add: path_exists_def map_of_new_directories del: map_of_append)
    ultimately have "mkdir ?d1 p = Inr (?d1 @ [(p, Directory)])"
      by (simp add: mkdir_def par)
    with True n(1) have "makedirs d p = Inr (d @ map (\<lambda>q. (q, Directory)) (news @ [p]))"
      by (subst makedirs.simps) simp
    moreover from n(2) anc "1.prems"(2)
    have "set (news @ [p]) = {q \<in> insert p (set (ancestors p)). \<not> path_exists d q}" by auto
    ultimately show ?thesis by blast
  next
    case False
    have ex: "path_exists d (butlast p)"
    proof (cases "butlast p = []")
      case True
      with anc have "ancestors p = [[]]" by (simp add: ancestors.simps)
      with "1.prems"(3) True show ?thesis by simp
    next
      case False
      with \<open>\<not> (butlast p \<noteq> [] \<and> \<not> path_exists d (butlast p))\<close> show ?thesis by simp
    qed
    with "1.prems"(4) anc have "is_dir d (butlast p)" by simp
    with "1.prems"(2) have "mkdir d p = Inr (d @ [(p, Directory)])"
      by (simp add: mkdir_def par is_dir_def)
    with False have "makedirs d p = Inr (d @ map (\<lambda>q. (q, Directory)) [p])"
      by (subst makedirs.simps) auto
    moreover have "set [p] = {q \<in> insert p (set (ancestors p)). \<not> path_exists d q}"
      using "1.prems"(2) ex wf_ancestors_dirs [OF "1.prems"(1) ex] anc by (auto simp: is_dir_exists)
    ultimately show ?thesis by blast
  qed
qed


lemma is_child_snoc: "is_child p q \<Longrightarrow> \<exists>y. q = p @ [y]"
proof -
  assume c: "is_child p q"
  then have "q \<noteq> [''/'']" "q \<noteq> []" by (auto simp: is_child_def parent_def split: if_splits)
  with c have "butlast q = p" by (simp add: is_child_def parent_def)
  with \<open>q \<noteq> []\<close> have "q = p @ [last q]" by (metis append_butlast_last_id)
  then show ?thesis ..
qed

lemma fresh_file:
  assumes "\<not> path_exists (disk w) p" and "is_dir (disk w) (parent p)"
    and "\<not> is_seemingly_dir (str_path p)"
  shows "absent_but_create p w = (None, w\<lparr>disk := disk w @ [(p, RegularFile [])]\<rparr>)"
  using assms
  by (simp add: absent_but_create_def on_disk_def open_w_def path_exists_def is_dir_def)

lemma fresh_directory:
  assumes wf: "wf_disk (disk w)" and ab: "\<not> path_exists (disk w) p"
    and some: "\<exists>q \<in> set (ancestors p). path_exists (disk w) q"
    and dirs: "\<forall>q \<in> set (ancestors p). path_exists (disk w) q \<longrightarrow> is_dir (disk w) q"
    and name: "is_seemingly_dir (str_path p)"
  shows "\<exists>d'. absent_but_create p w = (None, w\<lparr>disk := d'\<rparr>)
           \<and> is_dir d' p \<and> listdir d' p = Inr []
           \<and> (\<forall>q \<in> set (ancestors p). is_dir d' q)
           \<and> (\<forall>x. path_exists (disk w) x \<longrightarrow> map_of d' x = map_of (disk w) x)"
proof -
  let ?d = "disk w"
  from makedirs_creates [OF wf ab some dirs]
  obtain news where mk: "makedirs ?d p = Inr (?d @ map (\<lambda>q. (q, Directory)) news)"
    and news: "set news = {q \<in> insert p (set (ancestors p)). \<not> path_exists ?d q}"
    by blast
  let ?d' = "?d @ map (\<lambda>q. (q, Directory)) news"
  have look: "map_of ?d' x = (case map_of ?d x of Some y \<Rightarrow> Some y
                              | None \<Rightarrow> if x \<in> set news then Some Directory else None)" for x
    by (rule map_of_new_directories)
  from ab name mk have run: "absent_but_create p w = (None, w\<lparr>disk := ?d'\<rparr>)"
    by (simp add: absent_but_create_def on_disk_def)
  from ab news have pd: "is_dir ?d' p"
    by (simp add: is_dir_def look path_exists_def del: map_of_append)
  have anc: "is_dir ?d' q" if "q \<in> set (ancestors p)" for q
  proof (cases "path_exists ?d q")
    case True
    with dirs that show ?thesis by (auto simp: is_dir_def look path_exists_def simp del: map_of_append)
  next
    case False
    with that news show ?thesis by (simp add: is_dir_def look path_exists_def del: map_of_append)
  qed
  from some have pne: "p \<noteq> []" by (auto simp: ancestors.simps)
  have "filter (is_child p) (map fst ?d') = []"
  proof (rule ccontr)
    assume "filter (is_child p) (map fst ?d') \<noteq> []"
    then obtain q where q: "q \<in> set (map fst ?d')" "is_child p q"
      unfolding filter_empty_conv by blast
    then obtain y where y: "q = p @ [y]" using is_child_snoc by blast
    from q(1) have "path_exists ?d q \<or> q \<in> set news"
      by (auto simp: path_exists_def map_of_eq_None_iff image_iff)
    then show False
    proof
      assume "path_exists ?d q"
      with y wf_nothing_under_absent [OF wf pne ab, of "[y]"] show False by simp
    next
      assume "q \<in> set news"
      with news have "q = p \<or> q \<in> set (ancestors p)" by auto
      with y ancestors_shorter [of q p] show False by auto
    qed
  qed
  with pd have ls: "listdir ?d' p = Inr []"
    by (simp add: listdir_def is_dir_def)
  have keep: "map_of ?d' x = map_of ?d x" if "path_exists ?d x" for x
    using that by (auto simp: look path_exists_def simp del: map_of_append)
  from run pd ls anc keep show ?thesis by blast
qed

lemma listdir_of_dir: "is_dir d p \<Longrightarrow> \<exists>names. listdir d p = Inr names"
  by (simp add: listdir_def is_dir_def)

lemma removal_effect:
  assumes wf: "wf_disk (disk w)" and go: "removal_goes_ahead pr w p" and pne: "p \<noteq> []"
  shows "remove_path p pr w
           = (None, w\<lparr>disk := rmtree (disk w) p,
                      stdin := (if asks w p then tl (stdin w) else stdin w)\<rparr>)"
proof (cases "map_of (disk w) p")
  case None
  with go show ?thesis by (simp add: removal_goes_ahead_def)
next
  case (Some e)
  show ?thesis
  proof (cases e)
    case (RegularFile c)
    with Some have f: "map_of (disk w) p = Some (RegularFile c)" by simp
    from wf_nothing_under_file [OF wf pne f]
    have "rmtree (disk w) p = filter (\<lambda>(q, e). q \<noteq> p) (disk w)" by (rule rmtree_single)
    with f show ?thesis
      by (simp add: remove_path_def is_dir_def on_disk_def os_remove_def asks_def)
  next
    case Directory
    with Some have d: "is_dir (disk w) p" by (simp add: is_dir_def)
    then obtain names where n: "listdir (disk w) p = Inr names" using listdir_of_dir by blast
    show ?thesis
    proof (cases "names = []")
      case True
      with n wf_nothing_under_empty_dir [OF wf pne]
      have "rmtree (disk w) p = filter (\<lambda>(q, e). q \<noteq> p) (disk w)" by (intro rmtree_single) auto
      with d n True show ?thesis
        by (simp add: remove_path_def rmdir_def asks_def)
    next
      case False
      with go Some Directory n obtain answer rest where a: "pr" "stdin w = answer # rest"
        "lower (strip answer) = [] \<or> lower (strip answer) = ''y''"
        by (auto simp: removal_goes_ahead_def split: list.splits)
      with d n False show ?thesis
        by (auto simp: remove_path_def asks_def Let_def)
    qed
  qed
qed


lemma create_after_removal:
  assumes wf: "wf_disk (disk w)" and pne: "p \<noteq> []" "p \<noteq> [''/'']"
    and ex: "path_exists (disk w) p"
  shows "absent_but_create p (w\<lparr>disk := rmtree (disk w) p, stdin := s\<rparr>)
           = (None, w\<lparr>disk := rmtree (disk w) p
                               @ [(p, if is_seemingly_dir (str_path p) then Directory else RegularFile [])],
                      stdin := s\<rparr>)"
proof -
  let ?d1 = "rmtree (disk w) p"
  from wf_parent_is_dir [OF wf ex pne] have "is_dir (disk w) (butlast p)" .
  moreover from pne(1) have "\<not> prefix p (butlast p)"
    by (metis append_butlast_last_id prefix_order.antisym prefix_snoc not_Cons_self2 self_append_conv prefix_def)
  ultimately have par: "map_of ?d1 (butlast p) = Some Directory"
    by (simp add: map_of_rmtree is_dir_def)
  have gone: "map_of ?d1 p = None" by (simp add: map_of_rmtree)
  from pne have pp: "parent p = butlast p" by (simp add: parent_def)
  have mk: "makedirs ?d1 p = Inr (?d1 @ [(p, Directory)])"
    using par gone by (subst makedirs.simps) (simp add: mkdir_def path_exists_def pp)
  have op: "open_w ?d1 p = Inr (?d1 @ [(p, RegularFile [])])"
    using par gone by (simp add: open_w_def pp)
  show ?thesis
    using gone mk op by (simp add: absent_but_create_def on_disk_def path_exists_def)
qed

lemma recreated_directory_empty: "listdir (rmtree d p @ [(p, Directory)]) p = Inr []"
proof -
  have look: "map_of (rmtree d p @ [(p, Directory)]) p = Some Directory"
    by (simp add: map_of_snoc map_of_rmtree del: map_of_append)
  have "filter (is_child p) (map fst (rmtree d p @ [(p, Directory)])) = []"
  proof (rule ccontr)
    assume "filter (is_child p) (map fst (rmtree d p @ [(p, Directory)])) \<noteq> []"
    then obtain q where q: "q \<in> set (map fst (rmtree d p @ [(p, Directory)]))" "is_child p q"
      unfolding filter_empty_conv by blast
    then obtain y where y: "q = p @ [y]" using is_child_snoc by blast
    with q(1) have "p @ [y] \<in> set (map fst (rmtree d p))" by auto
    then have "map_of (rmtree d p) (p @ [y]) \<noteq> None" by (simp add: map_of_eq_None_iff)
    then show False by (simp add: map_of_rmtree)
  qed
  with look show ?thesis by (simp add: listdir_def del: map_of_append)
qed


text \<open>
  C8. \<open>CREATE\<close> is claimed to delete \<open>p\<close> first whenever \<open>p\<close> exists and then to create
  it fresh. On a well-formed disk, for a path \<open>p\<close> other than the current directory and
  the root, the code does the following. \<open>CREATE_IF_ABSENT\<close> does nothing when \<open>p\<close>
  exists, and is fresh creation when \<open>p\<close> is absent, as is \<open>CREATE\<close>. When \<open>p\<close> exists
  and its removal goes ahead (\<open>p\<close> is a file or an empty directory, or a non-empty
  directory whose removal the operator confirms), \<open>CREATE\<close> leaves the disk with \<open>p\<close>
  and everything under it removed and \<open>p\<close> added as an empty directory or an empty
  file; when the operator declines, the run ends with \<open>SystemExit\<close> and the disk is
  untouched. But when \<open>p\<close> is a non-empty directory and the confirmation is suppressed
  (\<open>prompt\<close> false), \<open>CREATE\<close> deletes nothing and creates nothing: it raises the
  \<open>AssertionError\<close> of \<open>_absent_but_create\<close> and leaves the world as it was. Fresh
  creation of an absent \<open>p\<close> whose name has a dotted suffix, in an existing directory,
  adds an empty regular file; fresh creation of an absent \<open>p\<close> with no dotted suffix,
  none of whose ancestors is a file, leaves \<open>p\<close> an empty directory, every ancestor of
  \<open>p\<close> a directory, and every entry that existed as it was.
\<close>

theorem create_commands:
  assumes wf: "wf_disk (disk w)" and pne: "p \<noteq> []" "p \<noteq> [''/'']"
  shows
    "(path_exists (disk w) p \<longrightarrow> FileCommand_run CREATE_IF_ABSENT p pr w = (None, w))
   \<and> (\<not> path_exists (disk w) p \<longrightarrow>
        FileCommand_run CREATE_IF_ABSENT p pr w = absent_but_create p w
        \<and> FileCommand_run CREATE p pr w = absent_but_create p w)
   \<and> (removal_goes_ahead pr w p \<longrightarrow>
        FileCommand_run CREATE p pr w
          = (None, w\<lparr>disk := rmtree (disk w) p
                               @ [(p, if is_seemingly_dir (str_path p) then Directory else RegularFile [])],
                     stdin := (if asks w p then tl (stdin w) else stdin w)\<rparr>)
        \<and> listdir (rmtree (disk w) p @ [(p, Directory)]) p = Inr [])
   \<and> (asks w p \<and> pr \<and> stdin w \<noteq> []
        \<and> lower (strip (hd (stdin w))) \<noteq> [] \<and> lower (strip (hd (stdin w))) \<noteq> ''y'' \<longrightarrow>
        FileCommand_run CREATE p pr w = (Some SystemExit, w\<lparr>stdin := tl (stdin w)\<rparr>))
   \<and> (asks w p \<and> \<not> pr \<longrightarrow> FileCommand_run CREATE p pr w = (Some AssertionError, w))
   \<and> (\<not> path_exists (disk w) p \<and> \<not> is_seemingly_dir (str_path p) \<and> is_dir (disk w) (parent p) \<longrightarrow>
        absent_but_create p w = (None, w\<lparr>disk := disk w @ [(p, RegularFile [])]\<rparr>))
   \<and> (\<not> path_exists (disk w) p \<and> is_seemingly_dir (str_path p)
        \<and> (\<exists>q \<in> set (ancestors p). path_exists (disk w) q)
        \<and> (\<forall>q \<in> set (ancestors p). path_exists (disk w) q \<longrightarrow> is_dir (disk w) q) \<longrightarrow>
        (\<exists>d'. absent_but_create p w = (None, w\<lparr>disk := d'\<rparr>)
           \<and> is_dir d' p \<and> listdir d' p = Inr []
           \<and> (\<forall>q \<in> set (ancestors p). is_dir d' q)
           \<and> (\<forall>x. path_exists (disk w) x \<longrightarrow> map_of d' x = map_of (disk w) x)))"
proof (intro conjI impI)
  assume "path_exists (disk w) p"
  then show "FileCommand_run CREATE_IF_ABSENT p pr w = (None, w)" by simp
next
  assume "\<not> path_exists (disk w) p"
  then show "FileCommand_run CREATE_IF_ABSENT p pr w = absent_but_create p w" by simp
next
  assume "\<not> path_exists (disk w) p"
  then show "FileCommand_run CREATE p pr w = absent_but_create p w" by simp
next
  assume go: "removal_goes_ahead pr w p"
  then have ex: "path_exists (disk w) p"
    by (auto simp: removal_goes_ahead_def path_exists_def split: option.splits)
  from removal_effect [OF wf go pne(1)] ex create_after_removal [OF wf pne ex]
  show "FileCommand_run CREATE p pr w
          = (None, w\<lparr>disk := rmtree (disk w) p
                               @ [(p, if is_seemingly_dir (str_path p) then Directory else RegularFile [])],
                     stdin := (if asks w p then tl (stdin w) else stdin w)\<rparr>)"
    by (simp add: and_then_def present_but_remove_def)
next
  show "listdir (rmtree (disk w) p @ [(p, Directory)]) p = Inr []"
    by (rule recreated_directory_empty)
next
  assume a: "asks w p \<and> pr \<and> stdin w \<noteq> []
        \<and> lower (strip (hd (stdin w))) \<noteq> [] \<and> lower (strip (hd (stdin w))) \<noteq> ''y''"
  then obtain answer rest where s: "stdin w = answer # rest" by (cases "stdin w") auto
  from a obtain names where n: "listdir (disk w) p = Inr names" "names \<noteq> []"
    using listdir_of_dir by (auto simp: asks_def)
  from a s n show "FileCommand_run CREATE p pr w = (Some SystemExit, w\<lparr>stdin := tl (stdin w)\<rparr>)"
    by (auto simp: asks_def is_dir_exists and_then_def present_but_remove_def remove_path_def Let_def)
next
  assume a: "asks w p \<and> \<not> pr"
  then obtain names where n: "listdir (disk w) p = Inr names" "names \<noteq> []"
    using listdir_of_dir by (auto simp: asks_def)
  from a n show "FileCommand_run CREATE p pr w = (Some AssertionError, w)"
    by (auto simp: asks_def is_dir_exists and_then_def present_but_remove_def remove_path_def
          absent_but_create_def)
next
  assume "\<not> path_exists (disk w) p \<and> \<not> is_seemingly_dir (str_path p) \<and> is_dir (disk w) (parent p)"
  then show "absent_but_create p w = (None, w\<lparr>disk := disk w @ [(p, RegularFile [])]\<rparr>)"
    using fresh_file by blast
next
  assume a: "\<not> path_exists (disk w) p \<and> is_seemingly_dir (str_path p)
        \<and> (\<exists>q \<in> set (ancestors p). path_exists (disk w) q)
        \<and> (\<forall>q \<in> set (ancestors p). path_exists (disk w) q \<longrightarrow> is_dir (disk w) q)"
  then show "\<exists>d'. absent_but_create p w = (None, w\<lparr>disk := d'\<rparr>)
           \<and> is_dir d' p \<and> listdir d' p = Inr []
           \<and> (\<forall>q \<in> set (ancestors p). is_dir d' q)
           \<and> (\<forall>x. path_exists (disk w) x \<longrightarrow> map_of d' x = map_of (disk w) x)"
    using fresh_directory [OF wf] by blast
qed

theorem create_commands_witness:
  "FileCommand_run CREATE_IF_ABSENT [''T'', ''old''] False stale_world = (None, stale_world)
   \<and> FileCommand_run CREATE [''T'', ''old''] False stale_world = (Some AssertionError, stale_world)
   \<and> FileCommand_run CREATE [''T'', ''old''] True confirming_world
       = (None, \<lparr>disk = [([], Directory), ([''T''], Directory), ([''T'', ''old''], Directory)],
                 stdin = [], trace = []\<rparr>)
   \<and> FileCommand_run CREATE [''T'', ''x.txt''] False scenario_world
       = (None, scenario_world\<lparr>disk := disk scenario_world @ [([''T'', ''x.txt''], RegularFile [])]\<rparr>)
   \<and> FileCommand_run CREATE_IF_ABSENT [''T'', ''x.txt''] False scenario_world
       = (None, scenario_world\<lparr>disk := disk scenario_world @ [([''T'', ''x.txt''], RegularFile [])]\<rparr>)
   \<and> (\<exists>d'. FileCommand_run CREATE [''T'', ''new'', ''sub''] False scenario_world
              = (None, scenario_world\<lparr>disk := d'\<rparr>)
           \<and> is_dir d' [''T'', ''new'', ''sub''] \<and> listdir d' [''T'', ''new'', ''sub''] = Inr []
           \<and> is_dir d' [''T'', ''new''])"
proof -
  have wf1: "wf_disk (disk stale_world)" by code_simp
  have wf2: "wf_disk (disk confirming_world)" by code_simp
  have wf3: "wf_disk (disk scenario_world)" by code_simp
  have ne: "[''T'', ''old''] \<noteq> []" "[''T'', ''old''] \<noteq> [''/'']"
    "[''T'', ''x.txt''] \<noteq> []" "[''T'', ''x.txt''] \<noteq> [''/'']"
    "[''T'', ''new'', ''sub''] \<noteq> []" "[''T'', ''new'', ''sub''] \<noteq> [''/'']"
    by simp_all
  have ex: "path_exists (disk stale_world) [''T'', ''old'']" by code_simp
  have go: "removal_goes_ahead True confirming_world [''T'', ''old'']" by code_simp
  have after: "confirming_world\<lparr>disk := rmtree (disk confirming_world) [''T'', ''old'']
                   @ [([''T'', ''old''],
                       if is_seemingly_dir (str_path [''T'', ''old'']) then Directory else RegularFile [])],
                 stdin := (if asks confirming_world [''T'', ''old''] then tl (stdin confirming_world)
                           else stdin confirming_world)\<rparr>
               = \<lparr>disk = [([], Directory), ([''T''], Directory), ([''T'', ''old''], Directory)],
                  stdin = [], trace = []\<rparr>"
    by code_simp
  have fl: "\<not> path_exists (disk scenario_world) [''T'', ''x.txt'']
     \<and> \<not> is_seemingly_dir (str_path [''T'', ''x.txt''])
     \<and> is_dir (disk scenario_world) (parent [''T'', ''x.txt''])"
    by code_simp
  have dr: "\<not> path_exists (disk scenario_world) [''T'', ''new'', ''sub'']
     \<and> is_seemingly_dir (str_path [''T'', ''new'', ''sub''])
     \<and> (\<exists>q \<in> set (ancestors [''T'', ''new'', ''sub'']). path_exists (disk scenario_world) q)
     \<and> (\<forall>q \<in> set (ancestors [''T'', ''new'', ''sub'']).
           path_exists (disk scenario_world) q \<longrightarrow> is_dir (disk scenario_world) q)"
    by code_simp
  have anc: "[''T'', ''new''] \<in> set (ancestors [''T'', ''new'', ''sub''])" by code_simp
  from create_commands [OF wf1 ne(1,2), of False] ex
  have c1: "FileCommand_run CREATE_IF_ABSENT [''T'', ''old''] False stale_world = (None, stale_world)"
    by blast
  have nonempty: "asks stale_world [''T'', ''old'']" by code_simp
  from create_commands [OF wf1 ne(1,2), of False] nonempty
  have c0: "FileCommand_run CREATE [''T'', ''old''] False stale_world = (Some AssertionError, stale_world)"
    by blast
  from create_commands [OF wf2 ne(1,2), of True] go after
  have c2: "FileCommand_run CREATE [''T'', ''old''] True confirming_world
       = (None, \<lparr>disk = [([], Directory), ([''T''], Directory), ([''T'', ''old''], Directory)],
                 stdin = [], trace = []\<rparr>)"
    by simp
  from create_commands [OF wf3 ne(3,4), of False] fl
  have c3: "FileCommand_run CREATE [''T'', ''x.txt''] False scenario_world
       = (None, scenario_world\<lparr>disk := disk scenario_world @ [([''T'', ''x.txt''], RegularFile [])]\<rparr>)"
    and c4: "FileCommand_run CREATE_IF_ABSENT [''T'', ''x.txt''] False scenario_world
       = (None, scenario_world\<lparr>disk := disk scenario_world @ [([''T'', ''x.txt''], RegularFile [])]\<rparr>)"
    by simp_all
  from create_commands [OF wf3 ne(5,6), of False] dr
  obtain d' where d': "absent_but_create [''T'', ''new'', ''sub''] scenario_world
                         = (None, scenario_world\<lparr>disk := d'\<rparr>)"
    "is_dir d' [''T'', ''new'', ''sub'']" "listdir d' [''T'', ''new'', ''sub''] = Inr []"
    "\<forall>q \<in> set (ancestors [''T'', ''new'', ''sub'']). is_dir d' q"
    and same: "FileCommand_run CREATE [''T'', ''new'', ''sub''] False scenario_world
                 = absent_but_create [''T'', ''new'', ''sub''] scenario_world"
    by blast
  from d' same anc
  have c5: "\<exists>d'. FileCommand_run CREATE [''T'', ''new'', ''sub''] False scenario_world
              = (None, scenario_world\<lparr>disk := d'\<rparr>)
           \<and> is_dir d' [''T'', ''new'', ''sub''] \<and> listdir d' [''T'', ''new'', ''sub''] = Inr []
           \<and> is_dir d' [''T'', ''new'']"
    by auto
  from c0 c1 c2 c3 c4 c5 show ?thesis by blast
qed

subsection \<open>Structure commands\<close>

lemma split_without_separator: "c \<notin> set s \<Longrightarrow> split s c = [s]"
  by (induction s) auto

lemma Path_valid_name: "valid_name n \<Longrightarrow> Path n = [n]"
  by (cases n) (auto simp: valid_name_def Path_def startswith_def split_without_separator)

lemma joinpath_valid_name: "valid_name n \<Longrightarrow> joinpath p n = p @ [n]"
  by (cases n) (auto simp: Path_valid_name joinpath_def startswith_def valid_name_def)

lemma wf_child_name:
  assumes "wf_disk d" and "q \<in> set (map fst d)" and "is_child p q"
  shows "joinpath p (last q) = q"
proof -
  from assms(3) obtain y where y: "q = p @ [y]" using is_child_snoc by blast
  from assms(3) have "q \<noteq> []" "q \<noteq> [''/'']"
    by (auto simp: is_child_def parent_def split: if_splits)
  with assms(1,2) have "valid_name (last q)" unfolding wf_disk_def by blast
  with y show ?thesis by (simp add: joinpath_valid_name)
qed

lemma everything_else_set:
  assumes "wf_disk d"
  shows "set (filter (\<lambda>q. q \<notin> set paths)
            (remdups (map (joinpath p) (remdups (map last (filter (is_child p) (map fst d)))))))
         = set (undeclared d p paths)"
proof -
  have "joinpath p ` last ` {q \<in> set (map fst d). is_child p q} = {q \<in> set (map fst d). is_child p q}"
  proof -
    have "joinpath p (last q) = q" if "q \<in> {q \<in> set (map fst d). is_child p q}" for q
      using that wf_child_name [OF assms] by blast
    then show ?thesis by (force simp: image_iff)
  qed
  then show ?thesis by (auto simp: undeclared_def image_image)
qed

lemma remove_path_frame:
  assumes "remove_path u pr w = (r, w')" and "\<not> prefix u x"
  shows "map_of (disk w') x = map_of (disk w) x"
proof -
  from assms(2) have "x \<noteq> u" by auto
  with assms show ?thesis
    by (auto simp: remove_path_def Let_def on_disk_def os_remove_def map_of_rmdir map_of_rmtree
          map_of_filter_key [of "\<lambda>q. q \<noteq> u"]
        split: if_splits sum.splits list.splits option.splits entry.splits)
qed

lemma remove_path_removes:
  assumes "remove_path u pr w = (None, w')" and "pr \<or> \<not> asks w u"
  shows "\<not> path_exists (disk w') u"
  using assms
  by (auto simp: remove_path_def Let_def on_disk_def os_remove_def map_of_rmdir map_of_rmtree
        map_of_filter_key [of "\<lambda>q. q \<noteq> u"] asks_def path_exists_def
      split: if_splits sum.splits list.splits option.splits entry.splits)

lemma listdir_nonempty_iff:
  assumes "is_dir d u"
  shows "listdir d u \<noteq> Inr [] \<longleftrightarrow> (\<exists>q. is_child u q \<and> map_of d q \<noteq> None)"
proof -
  from assms have "listdir d u = Inr (remdups (map last (filter (is_child u) (map fst d))))"
    by (simp add: listdir_def is_dir_def)
  moreover have "filter (is_child u) (map fst d) \<noteq> [] \<longleftrightarrow> (\<exists>q. is_child u q \<and> map_of d q \<noteq> None)"
    unfolding filter_empty_conv by (auto simp: map_of_eq_None_iff)
  ultimately show ?thesis by simp
qed

lemma asks_same:
  assumes "\<And>x. prefix u x \<Longrightarrow> map_of (disk w') x = map_of (disk w) x"
  shows "asks w' u = asks w u"
proof -
  have d: "is_dir (disk w') u = is_dir (disk w) u"
    using assms [of u] by (simp add: is_dir_def)
  have "(\<exists>q. is_child u q \<and> map_of (disk w') q \<noteq> None) = (\<exists>q. is_child u q \<and> map_of (disk w) q \<noteq> None)"
  proof -
    have "map_of (disk w') q = map_of (disk w) q" if "is_child u q" for q
    proof -
      from that obtain y where "q = u @ [y]" using is_child_snoc by blast
      then show ?thesis using assms [of q] by simp
    qed
    then show ?thesis by metis
  qed
  with d show ?thesis
    using listdir_nonempty_iff [of "disk w'" u] listdir_nonempty_iff [of "disk w" u]
    by (auto simp: asks_def)
qed

lemma remove_each_effect:
  assumes "distinct us" and "\<forall>u \<in> set us. \<forall>v \<in> set us. prefix u v \<longrightarrow> u = v"
  shows "remove_each us pr w = (r, w') \<Longrightarrow>
     (\<forall>x. (\<forall>u \<in> set us. \<not> prefix u x) \<longrightarrow> map_of (disk w') x = map_of (disk w) x)
     \<and> (r = None \<longrightarrow> (\<forall>u \<in> set us. pr \<or> \<not> asks w u \<longrightarrow> \<not> path_exists (disk w') u))"
  using assms
proof (induction us arbitrary: w r w')
  case Nil
  then show ?case by simp
next
  case (Cons u us)
  obtain r1 w1 where s1: "remove_path u pr w = (r1, w1)" by fastforce
  show ?case
  proof (cases r1)
    case (Some e)
    with Cons.prems(1) s1 have "r = Some e" "w' = w1" by (auto simp: and_then_def)
    with s1 show ?thesis using remove_path_frame by auto
  next
    case None
    with Cons.prems(1) s1 have rest: "remove_each us pr w1 = (r, w')" by (auto simp: and_then_def)
    from Cons.prems(2,3) have d: "distinct us"
      and sib: "\<forall>a \<in> set us. \<forall>b \<in> set us. prefix a b \<longrightarrow> a = b" by auto
    from Cons.IH [OF rest d sib]
    have frame: "\<forall>x. (\<forall>v \<in> set us. \<not> prefix v x) \<longrightarrow> map_of (disk w') x = map_of (disk w1) x"
      and gone: "r = None \<longrightarrow> (\<forall>v \<in> set us. pr \<or> \<not> asks w1 v \<longrightarrow> \<not> path_exists (disk w') v)"
      by auto
    have f: "map_of (disk w') x = map_of (disk w) x" if "\<forall>v \<in> set (u # us). \<not> prefix v x" for x
      using that frame remove_path_frame [OF s1] by auto
    have g: "\<not> path_exists (disk w') v" if "r = None" "v \<in> set (u # us)" "pr \<or> \<not> asks w v" for v
    proof (cases "v = u")
      case True
      with that None s1 have "\<not> path_exists (disk w1) u" using remove_path_removes by blast
      moreover have "\<forall>a \<in> set us. \<not> prefix a u"
        using Cons.prems(2,3) by auto
      ultimately show ?thesis using frame True by (auto simp: path_exists_def)
    next
      case False
      with that have vin: "v \<in> set us" by simp
      have "asks w1 v = asks w v"
      proof (rule asks_same)
        fix x assume px: "prefix v x"
        have "\<not> prefix u x"
        proof
          assume "prefix u x"
          with px have "prefix u v \<or> prefix v u"
            by (metis prefix_same_cases)
          with Cons.prems(3) vin False show False by auto
        qed
        with remove_path_frame [OF s1] show "map_of (disk w1) x = map_of (disk w) x" by blast
      qed
      with that vin gone show ?thesis by auto
    qed
    from f g show ?thesis by blast
  qed
qed


lemma undeclared_siblings:
  "\<forall>u \<in> set (undeclared d p paths). \<forall>v \<in> set (undeclared d p paths). prefix u v \<longrightarrow> u = v"
proof (intro ballI impI)
  fix u v assume "u \<in> set (undeclared d p paths)" "v \<in> set (undeclared d p paths)" "prefix u v"
  then have "is_child p u" "is_child p v" and pv: "prefix u v" by (simp_all add: undeclared_def)
  then obtain a b where "u = p @ [a]" "v = p @ [b]" using is_child_snoc by blast
  with pv show "u = v" by simp
qed

lemma structure_command_absent:
  "\<not> path_exists (disk w) p \<Longrightarrow> FileStructureCommand_run c p paths pr w = (None, w)"
  by (simp add: FileStructureCommand_run_def)

lemma that_is_all_effect:
  assumes "wf_disk (disk w)" and "is_dir (disk w) p"
  shows "FileStructureCommand_run THAT_IS_ALL p paths pr w
           = (if undeclared (disk w) p paths = [] then None else Some AssertionError, w)"
proof -
  let ?ee = "filter (\<lambda>q. q \<notin> set paths)
              (remdups (map (joinpath p) (remdups (map last (filter (is_child p) (map fst (disk w)))))))"
  from everything_else_set [OF assms(1), of paths p]
  have "set ?ee = set (undeclared (disk w) p paths)" .
  then have "?ee = [] \<longleftrightarrow> undeclared (disk w) p paths = []"
    by (metis set_empty)
  with assms(2) show ?thesis
    by (simp add: FileStructureCommand_run_def listdir_def is_dir_def path_exists_def Let_def)
qed

lemma remove_everything_else_effect:
  assumes wf: "wf_disk (disk w)" and dir: "is_dir (disk w) p"
    and run: "FileStructureCommand_run REMOVE_EVERYTHING_ELSE p paths pr w = (r, w')"
  shows "(\<forall>x. (\<forall>u \<in> set (undeclared (disk w) p paths). \<not> prefix u x)
              \<longrightarrow> map_of (disk w') x = map_of (disk w) x)
       \<and> (r = None \<longrightarrow> (\<forall>u \<in> set (undeclared (disk w) p paths).
                            pr \<or> \<not> asks w u \<longrightarrow> \<not> path_exists (disk w') u))"
proof -
  let ?ee = "filter (\<lambda>q. q \<notin> set paths)
              (remdups (map (joinpath p) (remdups (map last (filter (is_child p) (map fst (disk w)))))))"
  have eq: "set ?ee = set (undeclared (disk w) p paths)"
    by (rule everything_else_set [OF wf])
  from run dir have each: "remove_each ?ee pr w = (r, w')"
    by (simp add: FileStructureCommand_run_def listdir_def is_dir_def path_exists_def Let_def)
  have dist: "distinct ?ee" by simp
  have sib: "\<forall>u \<in> set ?ee. \<forall>v \<in> set ?ee. prefix u v \<longrightarrow> u = v"
    unfolding eq by (rule undeclared_siblings)
  have "(\<forall>x. (\<forall>u \<in> set ?ee. \<not> prefix u x) \<longrightarrow> map_of (disk w') x = map_of (disk w) x)
     \<and> (r = None \<longrightarrow> (\<forall>u \<in> set ?ee. pr \<or> \<not> asks w u \<longrightarrow> \<not> path_exists (disk w') u))"
    using dist sib each by (rule remove_each_effect)
  then show ?thesis unfolding eq .
qed

lemma asks_unprompted: "asks w u \<Longrightarrow> remove_path u False w = (None, w)"
proof -
  assume a: "asks w u"
  then obtain names where "listdir (disk w) u = Inr names" "names \<noteq> []"
    using listdir_of_dir by (auto simp: asks_def)
  with a show ?thesis by (simp add: remove_path_def asks_def)
qed

lemma remove_each_keeps:
  assumes "distinct us" and "\<forall>u \<in> set us. \<forall>v \<in> set us. prefix u v \<longrightarrow> u = v"
  shows "remove_each us False w = (r, w') \<Longrightarrow>
     (\<forall>u \<in> set us. asks w u \<longrightarrow> (\<forall>x. prefix u x \<longrightarrow> map_of (disk w') x = map_of (disk w) x))"
  using assms
proof (induction us arbitrary: w r w')
  case Nil
  then show ?case by simp
next
  case (Cons u us)
  obtain r1 w1 where s1: "remove_path u False w = (r1, w1)" by fastforce
  from Cons.prems(2,3) have d: "distinct us"
    and sib: "\<forall>a \<in> set us. \<forall>b \<in> set us. prefix a b \<longrightarrow> a = b" by auto
  have other: "\<not> prefix u x" if "t \<in> set us" "prefix t x" for t x
  proof
    assume "prefix u x"
    with that(2) have "prefix u t \<or> prefix t u" by (metis prefix_same_cases)
    with Cons.prems(2,3) that(1) show False by auto
  qed
  have "map_of (disk w') x = map_of (disk w) x"
    if t: "t \<in> set (u # us)" "asks w t" and px: "prefix t x" for t x
  proof (cases "t = u")
    case True
    with t s1 have same: "r1 = None" "w1 = w" using asks_unprompted by auto
    with Cons.prems(1) s1 have rest: "remove_each us False w = (r, w')"
      by (auto simp: and_then_def)
    have "\<forall>v \<in> set us. \<not> prefix v x"
    proof
      fix v assume v: "v \<in> set us"
      show "\<not> prefix v x"
      proof
        assume "prefix v x"
        with px True have "prefix u v \<or> prefix v u" by (metis prefix_same_cases)
        with Cons.prems(2,3) v show False by auto
      qed
    qed
    with remove_each_effect [OF d sib rest] show ?thesis by blast
  next
    case False
    with t have tin: "t \<in> set us" by simp
    from other [OF tin px] have fr: "map_of (disk w1) x = map_of (disk w) x"
      using remove_path_frame [OF s1] by blast
    show ?thesis
    proof (cases r1)
      case (Some e)
      with Cons.prems(1) s1 have "w' = w1" by (auto simp: and_then_def)
      with fr show ?thesis by simp
    next
      case None
      with Cons.prems(1) s1 have rest: "remove_each us False w1 = (r, w')"
        by (auto simp: and_then_def)
      have "asks w1 t = asks w t"
      proof (rule asks_same)
        fix y assume "prefix t y"
        from other [OF tin this] show "map_of (disk w1) y = map_of (disk w) y"
          using remove_path_frame [OF s1] by blast
      qed
      with t(2) Cons.IH [OF rest d sib] tin px fr show ?thesis by auto
    qed
  qed
  then show ?case by blast
qed

lemma remove_everything_else_keeps:
  assumes wf: "wf_disk (disk w)" and dir: "is_dir (disk w) p"
    and run: "FileStructureCommand_run REMOVE_EVERYTHING_ELSE p paths False w = (r, w')"
  shows "\<forall>u \<in> set (undeclared (disk w) p paths). asks w u
           \<longrightarrow> (\<forall>x. prefix u x \<longrightarrow> map_of (disk w') x = map_of (disk w) x)"
proof -
  let ?ee = "filter (\<lambda>q. q \<notin> set paths)
              (remdups (map (joinpath p) (remdups (map last (filter (is_child p) (map fst (disk w)))))))"
  have eq: "set ?ee = set (undeclared (disk w) p paths)"
    by (rule everything_else_set [OF wf])
  from run dir have each: "remove_each ?ee False w = (r, w')"
    by (simp add: FileStructureCommand_run_def listdir_def is_dir_def path_exists_def Let_def)
  have dist: "distinct ?ee" by simp
  have sib: "\<forall>u \<in> set ?ee. \<forall>v \<in> set ?ee. prefix u v \<longrightarrow> u = v"
    unfolding eq by (rule undeclared_siblings)
  have "\<forall>u \<in> set ?ee. asks w u \<longrightarrow> (\<forall>x. prefix u x \<longrightarrow> map_of (disk w') x = map_of (disk w) x)"
    using dist sib each by (rule remove_each_keeps)
  then show ?thesis unfolding eq .
qed

lemma recorded_result:
  "recorded c f w = (r, w1) \<Longrightarrow> \<exists>w0. f w = (r, w0) \<and> w1 = w0\<lparr>trace := trace w0 @ [(c, r)]\<rparr>"
  by (auto simp: recorded_def split: prod.splits)

lemma do_starts_with_structure_command:
  assumes "recorded (RunFileStructureCommand c md)
             (FileStructureCommand_run c md (map as_path ld) pr) w = (r1, w1)"
  shows "FileStructure_do (FileStructure pr md fc (Some c) ld lc dd False) w
       = (case r1 of
            Some e \<Rightarrow> (Some e, FileStructure pr md fc (Some c) ld lc dd False, w1)
          | None \<Rightarrow>
              (case FileStructure_do (FileStructure pr md fc None ld lc dd False) w1 of
                 (r, g, w') \<Rightarrow>
                   (r, FileStructure pr md fc (Some c) (list_dir g) lc dd (commands_run g), w')))"
  using assms
  by (cases r1) (auto simp: if_not_None_def split: option.splits prod.splits)

text \<open>
  C4. \<open>REMOVE_EVERYTHING_ELSE\<close> is claimed to delete every disk entry outside the
  declared set. The run of \<open>do\<close> on a directory that carries a structure command \<open>c\<close>
  is the call of \<open>c\<close> on the own paths of the declared children, and then, unless that
  call raised, the run of the same directory without a structure command. On a
  well-formed disk the call does the following. It changes nothing and returns
  normally when the path of the directory does not exist. When the path is a directory,
  \<open>THAT_IS_ALL\<close> changes nothing and raises \<open>AssertionError\<close> exactly when some disk
  entry directly under it lies outside the declared set. \<open>REMOVE_EVERYTHING_ELSE\<close>,
  whatever it returns, leaves every declared path that lies directly under the
  directory as it was, created or not, and changes nothing that is not at or under an
  undeclared entry; when it returns normally, every undeclared entry whose removal needs
  no confirmation (a file or an empty directory), and with the confirmation asked every
  undeclared entry, is gone. But with the confirmation suppressed (\<open>prompt\<close> false) an
  undeclared non-empty directory is not deleted: it stays with everything under it.
\<close>

theorem structure_commands:
  assumes wf: "wf_disk (disk w)"
    and step: "recorded (RunFileStructureCommand c md)
                 (FileStructureCommand_run c md (map as_path ld) pr) w = (r1, w1)"
  shows
    "FileStructure_do (FileStructure pr md fc (Some c) ld lc dd False) w
       = (case r1 of
            Some e \<Rightarrow> (Some e, FileStructure pr md fc (Some c) ld lc dd False, w1)
          | None \<Rightarrow>
              (case FileStructure_do (FileStructure pr md fc None ld lc dd False) w1 of
                 (r, g, w') \<Rightarrow>
                   (r, FileStructure pr md fc (Some c) (list_dir g) lc dd (commands_run g), w')))
   \<and> (\<not> path_exists (disk w) md \<longrightarrow> r1 = None \<and> disk w1 = disk w \<and> stdin w1 = stdin w)
   \<and> (is_dir (disk w) md \<and> c = THAT_IS_ALL \<longrightarrow>
        disk w1 = disk w \<and> stdin w1 = stdin w
        \<and> r1 = (if undeclared (disk w) md (map as_path ld) = [] then None else Some AssertionError))
   \<and> (is_dir (disk w) md \<and> c = REMOVE_EVERYTHING_ELSE \<longrightarrow>
        (\<forall>x \<in> set ld. is_child md (as_path x)
            \<longrightarrow> map_of (disk w1) (as_path x) = map_of (disk w) (as_path x))
        \<and> (\<forall>x. (\<forall>u \<in> set (undeclared (disk w) md (map as_path ld)). \<not> prefix u x)
                \<longrightarrow> map_of (disk w1) x = map_of (disk w) x)
        \<and> (r1 = None \<longrightarrow>
              (\<forall>u \<in> set (undeclared (disk w) md (map as_path ld)).
                  pr \<or> \<not> asks w u \<longrightarrow> \<not> path_exists (disk w1) u))
        \<and> (\<not> pr \<longrightarrow>
              (\<forall>u \<in> set (undeclared (disk w) md (map as_path ld)).
                  asks w u \<longrightarrow> (\<forall>x. prefix u x \<longrightarrow> map_of (disk w1) x = map_of (disk w) x))))"
proof -
  let ?paths = "map as_path ld"
  from recorded_result [OF step] obtain w0 where
    run: "FileStructureCommand_run c md ?paths pr w = (r1, w0)"
    and w1: "w1 = w0\<lparr>trace := trace w0 @ [(RunFileStructureCommand c md, r1)]\<rparr>"
    by blast
  from w1 have same: "disk w1 = disk w0" "stdin w1 = stdin w0" by simp_all
  have link: "FileStructure_do (FileStructure pr md fc (Some c) ld lc dd False) w
       = (case r1 of
            Some e \<Rightarrow> (Some e, FileStructure pr md fc (Some c) ld lc dd False, w1)
          | None \<Rightarrow>
              (case FileStructure_do (FileStructure pr md fc None ld lc dd False) w1 of
                 (r, g, w') \<Rightarrow>
                   (r, FileStructure pr md fc (Some c) (list_dir g) lc dd (commands_run g), w')))"
    by (rule do_starts_with_structure_command [OF step])
  have absent: "r1 = None \<and> disk w1 = disk w \<and> stdin w1 = stdin w" if "\<not> path_exists (disk w) md"
    using structure_command_absent [OF that, of c ?paths pr] run same by simp
  have tia: "disk w1 = disk w \<and> stdin w1 = stdin w
        \<and> r1 = (if undeclared (disk w) md ?paths = [] then None else Some AssertionError)"
    if "is_dir (disk w) md \<and> c = THAT_IS_ALL"
    using that that_is_all_effect [OF wf, of md ?paths pr] run same by auto
  have ree: "(\<forall>x \<in> set ld. is_child md (as_path x)
            \<longrightarrow> map_of (disk w1) (as_path x) = map_of (disk w) (as_path x))
        \<and> (\<forall>x. (\<forall>u \<in> set (undeclared (disk w) md ?paths). \<not> prefix u x)
                \<longrightarrow> map_of (disk w1) x = map_of (disk w) x)
        \<and> (r1 = None \<longrightarrow>
              (\<forall>u \<in> set (undeclared (disk w) md ?paths).
                  pr \<or> \<not> asks w u \<longrightarrow> \<not> path_exists (disk w1) u))
        \<and> (\<not> pr \<longrightarrow>
              (\<forall>u \<in> set (undeclared (disk w) md ?paths).
                  asks w u \<longrightarrow> (\<forall>x. prefix u x \<longrightarrow> map_of (disk w1) x = map_of (disk w) x)))"
    if a: "is_dir (disk w) md \<and> c = REMOVE_EVERYTHING_ELSE"
  proof -
    from a run have dir: "is_dir (disk w) md"
      and run': "FileStructureCommand_run REMOVE_EVERYTHING_ELSE md ?paths pr w = (r1, w0)"
      by simp_all
    note eff = remove_everything_else_effect [OF wf dir run']
    from eff have fr: "\<forall>x. (\<forall>u \<in> set (undeclared (disk w) md ?paths). \<not> prefix u x)
                 \<longrightarrow> map_of (disk w1) x = map_of (disk w) x"
      unfolding same by (rule conjunct1)
    from eff have gone: "r1 = None \<longrightarrow> (\<forall>u \<in> set (undeclared (disk w) md ?paths).
                                   pr \<or> \<not> asks w u \<longrightarrow> \<not> path_exists (disk w1) u)"
      unfolding same by (rule conjunct2)
    have kept: "\<forall>x \<in> set ld. is_child md (as_path x)
            \<longrightarrow> map_of (disk w1) (as_path x) = map_of (disk w) (as_path x)"
    proof (intro ballI impI)
      fix x assume x: "x \<in> set ld" "is_child md (as_path x)"
      have "\<not> prefix u (as_path x)" if u: "u \<in> set (undeclared (disk w) md ?paths)" for u
      proof
        assume pq: "prefix u (as_path x)"
        from u have "is_child md u" by (simp add: undeclared_def)
        then obtain a where a: "u = md @ [a]" using is_child_snoc by blast
        from x(2) obtain b where b: "as_path x = md @ [b]" using is_child_snoc by blast
        from pq a b have "u = as_path x" by simp
        with u x(1) show False by (simp add: undeclared_def)
      qed
      with fr show "map_of (disk w1) (as_path x) = map_of (disk w) (as_path x)" by blast
    qed
    have bug: "\<not> pr \<longrightarrow>
              (\<forall>u \<in> set (undeclared (disk w) md ?paths).
                  asks w u \<longrightarrow> (\<forall>x. prefix u x \<longrightarrow> map_of (disk w1) x = map_of (disk w) x))"
    proof
      assume "\<not> pr"
      with run' have "FileStructureCommand_run REMOVE_EVERYTHING_ELSE md ?paths False w = (r1, w0)"
        by simp
      from remove_everything_else_keeps [OF wf dir this]
      show "\<forall>u \<in> set (undeclared (disk w) md ?paths).
                  asks w u \<longrightarrow> (\<forall>x. prefix u x \<longrightarrow> map_of (disk w1) x = map_of (disk w) x)"
        unfolding same .
    qed
    from kept fr gone bug show ?thesis by (intro conjI)
  qed
  from link absent tia ree show ?thesis by blast
qed


theorem structure_commands_witness:
  "FileStructure_init 2 False clutter_text = Inr (clutter_root REMOVE_EVERYTHING_ELSE)
   \<and> undeclared (disk cluttered_world) [''T'']
         (map as_path (list_dir (clutter_root REMOVE_EVERYTHING_ELSE)))
       = [[''T'', ''junk.txt''], [''T'', ''old'']]
   \<and> asks cluttered_world [''T'', ''old'']
   \<and> FileStructure_do (clutter_root REMOVE_EVERYTHING_ELSE) cluttered_world
       = (None,
          FileStructure False [''T''] None (Some REMOVE_EVERYTHING_ELSE)
            [APath [''T'', ''keep.txt''], APath [''T'', ''new.txt'']] [None, None]
            [(''new.txt'', 1), (''keep.txt'', 0)] True,
          clutter_after)
   \<and> map_of (disk clutter_after) [''T'', ''old''] = Some Directory
   \<and> map_of (disk clutter_after) [''T'', ''old'', ''f.txt''] = Some (RegularFile ''data'')
   \<and> \<not> path_exists (disk clutter_after) [''T'', ''junk.txt'']
   \<and> map_of (disk clutter_after) [''T'', ''keep.txt''] = Some (RegularFile ''k'')
   \<and> map_of (disk clutter_after) [''T'', ''new.txt''] = None
   \<and> FileStructure_do (clutter_root THAT_IS_ALL) cluttered_world
       = (Some AssertionError, clutter_root THAT_IS_ALL,
          cluttered_world\<lparr>trace := [(RunFileStructureCommand THAT_IS_ALL [''T''], Some AssertionError)]\<rparr>)"
proof -
  let ?ld = "[APath [''T'', ''keep.txt''], APath [''T'', ''new.txt'']]"
  let ?dd = "[(''new.txt'', 1 :: nat), (''keep.txt'', 0)]"
  have parsed: "FileStructure_init 2 False clutter_text = Inr (clutter_root REMOVE_EVERYTHING_ELSE)"
    by code_simp
  have wf: "wf_disk (disk cluttered_world)" by code_simp
  have dir: "is_dir (disk cluttered_world) [''T'']" by code_simp
  have und: "undeclared (disk cluttered_world) [''T''] (map as_path ?ld)
               = [[''T'', ''junk.txt''], [''T'', ''old'']]"
    by code_simp
  have asks: "asks cluttered_world [''T'', ''old'']" "\<not> asks cluttered_world [''T'', ''junk.txt'']"
    by code_simp+
  have step: "recorded (RunFileStructureCommand REMOVE_EVERYTHING_ELSE [''T''])
                (FileStructureCommand_run REMOVE_EVERYTHING_ELSE [''T''] (map as_path ?ld) False)
                cluttered_world
              = (None, clutter_after)"
    by code_simp
  have rest: "FileStructure_do (FileStructure False [''T''] None None ?ld [None, None] ?dd False)
                clutter_after
              = (None, FileStructure False [''T''] None None ?ld [None, None] ?dd True, clutter_after)"
    by code_simp
  have step2: "recorded (RunFileStructureCommand THAT_IS_ALL [''T''])
                (FileStructureCommand_run THAT_IS_ALL [''T''] (map as_path ?ld) False)
                cluttered_world
              = (Some AssertionError,
                 cluttered_world\<lparr>trace := [(RunFileStructureCommand THAT_IS_ALL [''T''],
                                               Some AssertionError)]\<rparr>)"
    by code_simp
  have before: "map_of (disk cluttered_world) [''T'', ''old''] = Some Directory"
    "map_of (disk cluttered_world) [''T'', ''old'', ''f.txt''] = Some (RegularFile ''data'')"
    "map_of (disk cluttered_world) [''T'', ''keep.txt''] = Some (RegularFile ''k'')"
    "map_of (disk cluttered_world) [''T'', ''new.txt''] = None"
    by code_simp+
  have child: "is_child [''T''] [''T'', ''keep.txt'']" "is_child [''T''] [''T'', ''new.txt'']"
    by code_simp+
  note main = structure_commands [OF wf step, where fc = None and lc = "[None, None]" and dd = ?dd]
  from main rest
  have c1: "FileStructure_do (clutter_root REMOVE_EVERYTHING_ELSE) cluttered_world
       = (None,
          FileStructure False [''T''] None (Some REMOVE_EVERYTHING_ELSE) ?ld [None, None] ?dd True,
          clutter_after)"
    by (simp add: clutter_root_def)
  from main dir
  have kept: "\<forall>x \<in> set ?ld. is_child [''T''] (as_path x)
                \<longrightarrow> map_of (disk clutter_after) (as_path x) = map_of (disk cluttered_world) (as_path x)"
    and gone: "\<forall>u \<in> set (undeclared (disk cluttered_world) [''T''] (map as_path ?ld)).
                 False \<or> \<not> asks cluttered_world u \<longrightarrow> \<not> path_exists (disk clutter_after) u"
    and bug: "\<forall>u \<in> set (undeclared (disk cluttered_world) [''T''] (map as_path ?ld)).
                 asks cluttered_world u
                 \<longrightarrow> (\<forall>x. prefix u x \<longrightarrow> map_of (disk clutter_after) x = map_of (disk cluttered_world) x)"
    by blast+
  from bug und asks(1)
  have "\<forall>x. prefix [''T'', ''old''] x \<longrightarrow> map_of (disk clutter_after) x = map_of (disk cluttered_world) x"
    by simp
  then have "map_of (disk clutter_after) [''T'', ''old''] = map_of (disk cluttered_world) [''T'', ''old'']"
    "map_of (disk clutter_after) [''T'', ''old'', ''f.txt'']
       = map_of (disk cluttered_world) [''T'', ''old'', ''f.txt'']"
    by simp_all
  with before
  have c2: "map_of (disk clutter_after) [''T'', ''old''] = Some Directory"
    "map_of (disk clutter_after) [''T'', ''old'', ''f.txt''] = Some (RegularFile ''data'')"
    by simp_all
  from gone und asks(2)
  have c3: "\<not> path_exists (disk clutter_after) [''T'', ''junk.txt'']"
    by simp
  from kept child before
  have c4: "map_of (disk clutter_after) [''T'', ''keep.txt''] = Some (RegularFile ''k'')"
    "map_of (disk clutter_after) [''T'', ''new.txt''] = None"
    by simp_all
  from structure_commands [OF wf step2, where fc = None and lc = "[None, None]" and dd = ?dd]
  have c5: "FileStructure_do (clutter_root THAT_IS_ALL) cluttered_world
       = (Some AssertionError, clutter_root THAT_IS_ALL,
          cluttered_world\<lparr>trace := [(RunFileStructureCommand THAT_IS_ALL [''T''], Some AssertionError)]\<rparr>)"
    by (simp add: clutter_root_def)
  from parsed und asks(1) c1 c2 c3 c4 c5 show ?thesis
    by (simp add: clutter_root_def)
qed

text \<open>
  A declared child whose name has two segments: the root \<open>T\<close> declares the file
  \<open>a/b.txt\<close> and carries \<open>REMOVE_EVERYTHING_ELSE\<close>. The disk entry \<open>T/a\<close> lies directly
  under \<open>T\<close> and is not a declared path, so it is removed (the operator confirms), and
  the declared path \<open>T/a/b.txt\<close> goes with it.
\<close>

theorem declared_deep_path_removed:
  "FileStructure_init 2 True deep_text = Inr deep_root
   \<and> map as_path (list_dir deep_root) = [[''T'', ''a'', ''b.txt'']]
   \<and> map_of (disk deep_world) [''T'', ''a'', ''b.txt''] = Some (RegularFile ''data'')
   \<and> undeclared (disk deep_world) [''T''] (map as_path (list_dir deep_root)) = [[''T'', ''a'']]
   \<and> fst (FileStructure_do deep_root deep_world) = None
   \<and> disk (snd (snd (FileStructure_do deep_root deep_world))) = [([], Directory), ([''T''], Directory)]"
  by code_simp


end
